theory Spec2Isabelle
  imports Main "HOL-Library.Char_ord" "HOL-Library.List_Lexorder" "HOL-Library.Multiset"
begin

section \<open>Historical index components from wiki revisions (components.py)\<close>

subsection \<open>Exceptions\<close>

text \<open>
  The script defines no exception class of its own. Every failure is an uncaught Python
  exception; the ones that the modelled code can raise are listed here.
  \<open>RequestError\<close> stands for whatever the HTTP session or the HTML download raises.
\<close>

datatype error =
    KeyError
  | IndexError
  | ValueError
  | TypeError
  | UnboundLocalError
  | FileNotFoundError
  | IsADirectoryError
  | RequestError

subsection \<open>Cells and their order\<close>

text \<open>
  A cell of a scraped table, and a label of a frame's index: text, a number, or the
  missing value that pandas puts where the HTML cell is empty.
\<close>

datatype cell = Str string | Num int | NaN

fun is_str :: "cell \<Rightarrow> bool" where
  "is_str (Str _) = True"
| "is_str _ = False"

fun is_num :: "cell \<Rightarrow> bool" where
  "is_num (Num _) = True"
| "is_num _ = False"

text \<open>
  The order \<open>sort_index\<close> sorts labels by: text by code point (strings are byte lists,
  and the byte order of UTF-8 is the code point order), numbers by value, the missing
  value last. Python does not compare text with a number; \<open>sort_index\<close> below raises
  before the order between the two is ever consulted.
\<close>

instantiation cell :: linorder
begin

fun less_eq_cell :: "cell \<Rightarrow> cell \<Rightarrow> bool" where
  "less_eq_cell (Str a) (Str b) = (a \<le> b)"
| "less_eq_cell (Num a) (Num b) = (a \<le> b)"
| "less_eq_cell (Num _) (Str _) = True"
| "less_eq_cell (Str _) (Num _) = False"
| "less_eq_cell NaN NaN = True"
| "less_eq_cell NaN _ = False"
| "less_eq_cell _ NaN = True"

definition less_cell :: "cell \<Rightarrow> cell \<Rightarrow> bool" where
  "less_cell x y = (x \<le> y \<and> \<not> y \<le> x)"

instance
proof
  fix x y z :: cell
  show "(x < y) = (x \<le> y \<and> \<not> y \<le> x)"
    by (simp add: less_cell_def)
  show "x \<le> x"
    by (cases x) simp_all
  show "x \<le> y \<Longrightarrow> y \<le> z \<Longrightarrow> x \<le> z"
    by (cases x; cases y; cases z) simp_all
  show "x \<le> y \<Longrightarrow> y \<le> x \<Longrightarrow> x = y"
    by (cases x; cases y) simp_all
  show "x \<le> y \<or> y \<le> x"
    by (cases x; cases y) auto
qed

end

subsection \<open>Data frames\<close>

text \<open>
  A pandas DataFrame, row by row: the name of its index, the column labels, and for each
  row its index label and its cells under the columns.
\<close>

record dataframe =
  index_name :: "string option"
  columns :: "string list"
  rows :: "(cell \<times> cell list) list"

text \<open>
  What \<open>pd.read_html\<close> yields: column labels are unique (pandas renames a repeated
  header) and every row has one cell per column.
\<close>

definition wf_frame :: "dataframe \<Rightarrow> bool" where
  "wf_frame df =
     (distinct (columns df) \<and> list_all (\<lambda>r. length (snd r) = length (columns df)) (rows df))"

text \<open>\<open>list(df.index)\<close>: the index labels in row order.\<close>

definition index_labels :: "dataframe \<Rightarrow> cell list" where
  "index_labels df = map fst (rows df)"

fun position :: "string \<Rightarrow> string list \<Rightarrow> nat" where
  "position c [] = 0"
| "position c (x # xs) = (if x = c then 0 else Suc (position c xs))"

definition drop_nth :: "nat \<Rightarrow> 'a list \<Rightarrow> 'a list" where
  "drop_nth i xs = take i xs @ drop (Suc i) xs"

text \<open>\<open>df[col]\<close> on a frame whose column labels are unique: the cells under the column.\<close>

definition column_values :: "string \<Rightarrow> dataframe \<Rightarrow> cell list" where
  "column_values col df = map (\<lambda>r. snd r ! position col (columns df)) (rows df)"

text \<open>A row re-keyed on its \<open>i\<close>-th cell: the cell becomes the label and leaves the row.\<close>

definition rekey :: "nat \<Rightarrow> cell \<times> cell list \<Rightarrow> cell \<times> cell list" where
  "rekey i r = (snd r ! i, drop_nth i (snd r))"

text \<open>
  \<open>df.set_index(col)\<close>: the column becomes the index (named after it) and leaves the
  columns. pandas raises KeyError for a label that is no column. For a label that two
  columns carry pandas keys the frame on both columns; the frames here have one label
  per row and cannot hold that result, so the model stops with ValueError there.
  \<open>pd.read_html\<close> renames a repeated header, so no frame it yields reaches that branch
  (see \<open>wf_frame\<close>).
\<close>

definition set_index :: "string \<Rightarrow> dataframe \<Rightarrow> error + dataframe" where
  "set_index col df =
     (if col \<notin> set (columns df) then Inl KeyError
      else if count_list (columns df) col \<noteq> 1 then Inl ValueError
      else let i = position col (columns df) in
        Inr \<lparr> index_name = Some col,
              columns = drop_nth i (columns df),
              rows = map (rekey i) (rows df) \<rparr>)"

text \<open>Labels that Python cannot order: text and numbers together.\<close>

definition mixed :: "cell list \<Rightarrow> bool" where
  "mixed ls = (list_ex is_str ls \<and> list_ex is_num ls)"

text \<open>
  \<open>df.sort_index()\<close>: rows ascending by index label, missing labels last. Sorting an
  index that holds both text and numbers raises TypeError. Rows with equal labels keep
  their order here. pandas sorts with numpy's quicksort, which is a function of its input
  but fixes no order among equal labels; \<open>sort_index_with\<close> below leaves that order
  open.
\<close>

definition sort_index :: "dataframe \<Rightarrow> error + dataframe" where
  "sort_index df =
     (if mixed (index_labels df) then Inl TypeError
      else Inr (df\<lparr>rows := sort_key fst (rows df)\<rparr>))"

subsection \<open>Choosing the components table (get\_index\_components\_at, lines 98 to 106)\<close>

text \<open>
  The \<open>for df in table\<close> loop. The first argument is the loop variable as the previous
  iterations left it (\<open>None\<close> while it is unbound); the result is the variable after the
  loop. A break leaves it bound to the re-keyed frame; running off the end of the list
  leaves it bound to the last frame scanned.
\<close>

fun table_scan :: "dataframe option \<Rightarrow> dataframe list \<Rightarrow> error + dataframe option" where
  "table_scan df [] = Inr df"
| "table_scan df (t # ts) =
     (if ''Symbol'' \<in> set (columns t) then map_sum id Some (set_index ''Symbol'' t)
      else if ''Ticker symbol'' \<in> set (columns t) then map_sum id Some (set_index ''Ticker symbol'' t)
      else table_scan (Some t) ts)"

text \<open>
  Lines 98 to 106 as a whole: the loop, then \<open>df.index.name = 'Symbol'\<close>, then
  \<open>return df.sort_index()\<close>. With no table at all the loop variable is unbound.
\<close>

definition components_table :: "dataframe list \<Rightarrow> error + dataframe" where
  "components_table table =
     (case table_scan None table of
        Inl e \<Rightarrow> Inl e
      | Inr None \<Rightarrow> Inl UnboundLocalError
      | Inr (Some df) \<Rightarrow> sort_index (df\<lparr>index_name := Some ''Symbol''\<rparr>))"

text \<open>
  The two tests of the loop as one predicate, and the column a frame that passes is
  re-keyed on: \<open>'Symbol'\<close> is tried first.
\<close>

definition has_symbol_header :: "dataframe \<Rightarrow> bool" where
  "has_symbol_header df = (''Symbol'' \<in> set (columns df) \<or> ''Ticker symbol'' \<in> set (columns df))"

definition symbol_column :: "dataframe \<Rightarrow> string" where
  "symbol_column df = (if ''Symbol'' \<in> set (columns df) then ''Symbol'' else ''Ticker symbol'')"

subsection \<open>The wiki's revision endpoint\<close>

text \<open>Instants of time; a larger value is a later instant.\<close>

type_synonym timestamp = int

text \<open>
  Modelled from the spec: \<open>utils.isoformat\<close> is imported by components.py and is not
  among the sources. The spec (section 6) sends \<open>rvstart\<close> and \<open>rvend\<close> "as ISO-8601
  timestamps": the function renders a date as text and keeps the instant. Instants are
  not text here, so it returns its argument.
\<close>

definition isoformat :: "timestamp \<Rightarrow> timestamp" where
  "isoformat d = d"

datatype pval = PStr string | PInt int | PTime timestamp

type_synonym query_params = "string \<rightharpoonup> pval"

record revision =
  revid :: int
  timestamp :: timestamp
  user :: string
  comment :: string

text \<open>
  The JSON answer, as far as the script reads it: \<open>data["query"]["pages"]\<close> (absent when
  the answer has no such keys) and, per page, its \<open>'revisions'\<close> (absent when the page
  object has no such key).
\<close>

record page_obj =
  title :: string
  revisions :: "revision list option"

record response =
  query_pages :: "page_obj list option"

text \<open>
  The address of a historical rendering: \<open>index.php?title=...&oldid=...\<close>, kept as its
  two parameters (the percent-encoding of the title is not modelled).
\<close>

datatype page_url = PageUrl string int

text \<open>The requests a run sends, oldest first.\<close>

datatype request = ApiGet query_params | PageGet page_url

text \<open>
  What the script takes from outside: the HTTP session \<open>S\<close> (its \<open>get\<close> followed by
  \<open>json()\<close>), \<open>pd.read_html\<close> on an address, \<open>pd.date_range\<close>, the two clocks
  (\<open>datetime.datetime.today()\<close> and \<open>datetime.date.today()\<close>) and \<open>str\<close> on a date.
\<close>

record env =
  S_get :: "query_params \<Rightarrow> error + response"
  read_html :: "page_url \<Rightarrow> error + dataframe list"
  date_range :: "timestamp option \<Rightarrow> timestamp \<Rightarrow> string \<Rightarrow> error + timestamp list"
  datetime_today :: timestamp
  date_today :: timestamp
  date_str :: "timestamp \<Rightarrow> string"

definition wikipedia_pages :: "string \<rightharpoonup> string" where
  "wikipedia_pages = map_of
     [(''SPX'', ''List of S&P 500 companies''),
      (''NASDAQ'', ''Nasdaq-100#Components''),
      (''Nasdaq100'', ''Nasdaq-100''),
      (''S400'', ''List of S&P 400 companies''),
      (''DowJones'', ''Dow_Jones_Industrial_Average''),
      (''Russell_1000'', ''Russell_1000_Index''),
      (''FTSE_350'', ''FTSE_350_Index''),
      (''Forbes2000'', ''Forbes_Global_2000'')]"

text \<open>Lines 50 to 68 of get\_revisions\_metadata: the query dictionary.\<close>

definition revisions_query ::
  "string \<Rightarrow> timestamp option \<Rightarrow> timestamp option \<Rightarrow> string \<Rightarrow> int \<Rightarrow> (string \<times> pval) list
     \<Rightarrow> query_params" where
  "revisions_query page_title rvstart rvend rvdir rvlimit kwargs =
     (let q0 = [''action'' \<mapsto> PStr ''query'',
                ''prop'' \<mapsto> PStr ''revisions'',
                ''titles'' \<mapsto> PStr page_title,
                ''rvprop'' \<mapsto> PStr ''ids|timestamp|user|comment'',
                ''rvslots'' \<mapsto> PStr ''main'',
                ''formatversion'' \<mapsto> PStr ''2'',
                ''format'' \<mapsto> PStr ''json'',
                ''rvlimit'' \<mapsto> PInt rvlimit,
                ''rvdir'' \<mapsto> PStr rvdir];
          q1 = (case rvstart of None \<Rightarrow> q0 | Some d \<Rightarrow> q0(''rvstart'' \<mapsto> PTime (isoformat d)));
          q2 = (case rvend of None \<Rightarrow> q1 | Some d \<Rightarrow> q1(''rvend'' \<mapsto> PTime (isoformat d)))
      in fold (\<lambda>kv q. q(fst kv \<mapsto> snd kv)) kwargs q2)"

text \<open>
  get\_revisions\_metadata. The last argument is the log of requests sent so far; the
  result carries the log as the call leaves it, also when it raises.
\<close>

definition get_revisions_metadata ::
  "env \<Rightarrow> string \<Rightarrow> timestamp option \<Rightarrow> timestamp option \<Rightarrow> string \<Rightarrow> int \<Rightarrow> (string \<times> pval) list
     \<Rightarrow> request list \<Rightarrow> (error + revision list) \<times> request list" where
  "get_revisions_metadata E page_title rvstart rvend rvdir rvlimit kwargs log =
     (let query_params = revisions_query page_title rvstart rvend rvdir rvlimit kwargs;
          log' = log @ [ApiGet query_params]
      in case S_get E query_params of
           Inl e \<Rightarrow> (Inl e, log')
         | Inr data \<Rightarrow>
             (case query_pages data of
                None \<Rightarrow> (Inl KeyError, log')
              | Some [] \<Rightarrow> (Inl IndexError, log')
              | Some (p # _) \<Rightarrow>
                  (case revisions p of
                     None \<Rightarrow> (Inl KeyError, log')
                   | Some revs \<Rightarrow> (Inr revs, log'))))"

text \<open>
  Lines 96 to 106 of get\_index\_components\_at: download the rendering of the revision,
  parse its tables, choose and normalise the components table.
\<close>

definition fetch_components ::
  "env \<Rightarrow> string \<Rightarrow> revision \<Rightarrow> request list \<Rightarrow> (error + dataframe) \<times> request list" where
  "fetch_components E page revision log =
     (let url = PageUrl page (revid revision);
          log' = log @ [PageGet url]
      in case read_html E url of
           Inl e \<Rightarrow> (Inl e, log')
         | Inr table \<Rightarrow> (components_table table, log'))"

definition get_index_components_at ::
  "env \<Rightarrow> string \<Rightarrow> timestamp option \<Rightarrow> request list \<Rightarrow> (error + dataframe) \<times> request list" where
  "get_index_components_at E index when log =
     (let when' = (case when of None \<Rightarrow> datetime_today E | Some w \<Rightarrow> w) in
      case wikipedia_pages index of
        None \<Rightarrow> (Inl KeyError, log)
      | Some page \<Rightarrow>
          (case get_revisions_metadata E page (Some when') None ''older'' 1 [] log of
             (Inl e, log1) \<Rightarrow> (Inl e, log1)
           | (Inr [], log1) \<Rightarrow> (Inl IndexError, log1)
           | (Inr (revision # _), log1) \<Rightarrow> fetch_components E page revision log1))"

subsection \<open>Lines 96 to 106 with the library's two steps apart\<close>

text \<open>
  \<open>pd.read_html(url)\<close> downloads the document and parses its text, and \<open>sort_index\<close>
  orders the rows with the sort of the library. Both are taken from the library here:
  the parser as a function of the document's text, and the order the sort gives to the
  rows of a frame. What the library promises of that order is \<open>sorts_by_label\<close>: for
  labels that can be ordered, the same rows, ascending by label, the missing labels last;
  it says nothing on rows with equal labels. The functions are
  those of above with the library passed in; \<open>fetch_components\<close> is the case where the
  download and the parser make up \<open>read_html\<close> and ties keep the order of the document.
  Two results are the \<open>same_up_to_ties\<close> when they are the same error, or frames with the
  same index name, columns, labels and rows, in the same order wherever the labels tell
  the rows apart.
\<close>

type_synonym frame_rows = "(cell \<times> cell list) list"

record pandas =
  parse_html :: "string \<Rightarrow> error + dataframe list"
  order_rows :: "frame_rows \<Rightarrow> frame_rows"

definition sorts_by_label :: "(frame_rows \<Rightarrow> frame_rows) \<Rightarrow> bool" where
  "sorts_by_label order =
     (\<forall>xs. \<not> mixed (map fst xs) \<longrightarrow> mset (order xs) = mset xs \<and> sorted (map fst (order xs)))"

definition sort_index_with :: "(frame_rows \<Rightarrow> frame_rows) \<Rightarrow> dataframe \<Rightarrow> error + dataframe" where
  "sort_index_with order df =
     (if mixed (index_labels df) then Inl TypeError
      else Inr (df\<lparr>rows := order (rows df)\<rparr>))"

definition components_table_with :: "(frame_rows \<Rightarrow> frame_rows) \<Rightarrow> dataframe list \<Rightarrow> error + dataframe" where
  "components_table_with order table =
     (case table_scan None table of
        Inl e \<Rightarrow> Inl e
      | Inr None \<Rightarrow> Inl UnboundLocalError
      | Inr (Some df) \<Rightarrow> sort_index_with order (df\<lparr>index_name := Some ''Symbol''\<rparr>))"

definition fetch_components_with ::
  "pandas \<Rightarrow> (page_url \<Rightarrow> error + string) \<Rightarrow> string \<Rightarrow> revision \<Rightarrow> request list
     \<Rightarrow> (error + dataframe) \<times> request list" where
  "fetch_components_with P download page revision log =
     (let url = PageUrl page (revid revision);
          log' = log @ [PageGet url]
      in case download url of
           Inl e \<Rightarrow> (Inl e, log')
         | Inr html \<Rightarrow>
             (case parse_html P html of
                Inl e \<Rightarrow> (Inl e, log')
              | Inr table \<Rightarrow> (components_table_with (order_rows P) table, log')))"

definition same_up_to_ties :: "error + dataframe \<Rightarrow> error + dataframe \<Rightarrow> bool" where
  "same_up_to_ties a b =
     (case (a, b) of
        (Inl e, Inl e') \<Rightarrow> e = e'
      | (Inr df, Inr df') \<Rightarrow>
          index_name df = index_name df' \<and> columns df = columns df'
          \<and> index_labels df = index_labels df' \<and> mset (rows df) = mset (rows df')
          \<and> (distinct (index_labels df) \<longrightarrow> df = df')
      | _ \<Rightarrow> False)"

subsection \<open>The history loop\<close>

text \<open>
  A Python dict, in insertion order: storing under a key that is present replaces the
  value where it stands, storing under a new key appends.
\<close>

fun dict_set :: "('k \<times> 'v) list \<Rightarrow> 'k \<Rightarrow> 'v \<Rightarrow> ('k \<times> 'v) list" where
  "dict_set [] k v = [(k, v)]"
| "dict_set ((k', v') # kvs) k v =
     (if k' = k then (k, v) # kvs else (k', v') # dict_set kvs k v)"

text \<open>The \<open>for date in dates\<close> loop of get\_index\_components\_history.\<close>

fun history_loop ::
  "env \<Rightarrow> string \<Rightarrow> timestamp list \<Rightarrow> (string \<times> cell list) list \<Rightarrow> request list
     \<Rightarrow> (error + (string \<times> cell list) list) \<times> request list" where
  "history_loop E index [] historical_components log = (Inr historical_components, log)"
| "history_loop E index (date # dates) historical_components log =
     (case get_index_components_at E index (Some date) log of
        (Inl e, log') \<Rightarrow> (Inl e, log')
      | (Inr components_at_date, log') \<Rightarrow>
          history_loop E index dates
            (dict_set historical_components (date_str E date) (index_labels components_at_date))
            log')"

definition get_index_components_history ::
  "env \<Rightarrow> string \<Rightarrow> timestamp option \<Rightarrow> timestamp option \<Rightarrow> string \<Rightarrow> request list
     \<Rightarrow> (error + (string \<times> cell list) list) \<times> request list" where
  "get_index_components_history E index start_date end_date freq log =
     (let end_date' = (case end_date of None \<Rightarrow> date_today E | Some d \<Rightarrow> d) in
      case date_range E start_date end_date' freq of
        Inl e \<Rightarrow> (Inl e, log)
      | Inr dates \<Rightarrow> history_loop E index dates [] log)"

subsection \<open>The endpoint itself\<close>

text \<open>
  The revision endpoint is a service outside the repository; the script reaches it
  through the session \<open>S\<close>. The definitions of this subsection model it from section 6
  of the spec and from the docstring of get\_revisions\_metadata. A wiki maps a page
  title to the revisions of the page.
\<close>

type_synonym wiki = "string \<rightharpoonup> revision list"

text \<open>Modelled from the spec: a timestamp parameter of the query, when it is given.\<close>

definition time_param :: "query_params \<Rightarrow> string \<Rightarrow> timestamp option" where
  "time_param q k = (case q k of Some (PTime t) \<Rightarrow> Some t | _ \<Rightarrow> None)"

text \<open>
  Modelled from the spec: the revisions a query asks for. With \<open>rvdir = 'older'\<close> the
  listing starts at \<open>rvstart\<close> and goes back in time to \<open>rvend\<close>
  ("rvstart > rvend", "the latest revision before a given date"); with \<open>'newer'\<close> it
  starts at \<open>rvstart\<close> and goes forward to \<open>rvend\<close> ("rvstart < rvend", "the first
  revision after a given date"). A bound that is not given does not restrict.
\<close>

definition in_range :: "string \<Rightarrow> timestamp option \<Rightarrow> timestamp option \<Rightarrow> revision \<Rightarrow> bool" where
  "in_range rvdir rvstart rvend r =
     (if rvdir = ''older''
      then (case rvstart of None \<Rightarrow> True | Some s \<Rightarrow> timestamp r \<le> s) \<and>
           (case rvend of None \<Rightarrow> True | Some e \<Rightarrow> e \<le> timestamp r)
      else (case rvstart of None \<Rightarrow> True | Some s \<Rightarrow> s \<le> timestamp r) \<and>
           (case rvend of None \<Rightarrow> True | Some e \<Rightarrow> timestamp r \<le> e))"

text \<open>
  Modelled from the spec: the order of the listing, "new->old" for \<open>'older'\<close> and
  "old->new" for \<open>'newer'\<close>.
\<close>

definition listed :: "string \<Rightarrow> timestamp option \<Rightarrow> timestamp option \<Rightarrow> revision list \<Rightarrow> revision list" where
  "listed rvdir rvstart rvend revs =
     (let hits = filter (in_range rvdir rvstart rvend) revs
      in if rvdir = ''older'' then rev (sort_key timestamp hits) else sort_key timestamp hits)"

text \<open>
  Modelled from the spec: the answer to a query. At most \<open>rvlimit\<close> revisions of the
  listing are returned, under \<open>query.pages[0].revisions\<close>. A page that is unknown, or
  has no revision in the range, comes back as a page object without \<open>'revisions'\<close>; a
  query without a title, with another direction or with a limit below one is answered
  without \<open>"query"\<close>.
\<close>

definition mediawiki :: "wiki \<Rightarrow> query_params \<Rightarrow> error + response" where
  "mediawiki w q =
     (case (q ''titles'', q ''rvdir'', q ''rvlimit'') of
        (Some (PStr t), Some (PStr rvdir), Some (PInt n)) \<Rightarrow>
          if (rvdir \<noteq> ''older'' \<and> rvdir \<noteq> ''newer'') \<or> n < 1
          then Inr \<lparr>query_pages = None\<rparr>
          else (case w t of
                  None \<Rightarrow> Inr \<lparr>query_pages = Some [\<lparr>title = t, revisions = None\<rparr>]\<rparr>
                | Some revs \<Rightarrow>
                    (let found = take (nat n) (listed rvdir (time_param q ''rvstart'') (time_param q ''rvend'') revs)
                     in Inr \<lparr>query_pages =
                               Some [\<lparr>title = t, revisions = (if found = [] then None else Some found)\<rparr>]\<rparr>))
      | _ \<Rightarrow> Inr \<lparr>query_pages = None\<rparr>)"

subsection \<open>Writing the snapshots\<close>

text \<open>
  The part of the machine that components\_to\_separate\_csv touches: the directories that
  exist, the files with their contents, and the lines printed.
\<close>

record os_state =
  dirs :: "string set"
  files :: "string \<rightharpoonup> string"
  stdout :: "string list"

text \<open>
  \<open>str.split()\<close> without arguments: the maximal runs of characters that are not white
  space. Strings are byte lists in UTF-8 here. The white space of ASCII is one byte; the
  white space beyond it (U+0085, U+00A0, U+1680, U+2000 to U+200A, U+2028, U+2029,
  U+202F, U+205F, U+3000) is recognised by its encoding and treated as a blank.
\<close>

definition is_space :: "char \<Rightarrow> bool" where
  "is_space c = (c \<in> set [CHR '' '', CHR 0x09, CHR 0x0A, CHR 0x0B, CHR 0x0C, CHR 0x0D,
                          CHR 0x1C, CHR 0x1D, CHR 0x1E, CHR 0x1F])"

definition wide_spaces :: "string list" where
  "wide_spaces =
     [[CHR 0xC2, CHR 0x85], [CHR 0xC2, CHR 0xA0],
      [CHR 0xE1, CHR 0x9A, CHR 0x80],
      [CHR 0xE2, CHR 0x80, CHR 0x80], [CHR 0xE2, CHR 0x80, CHR 0x81], [CHR 0xE2, CHR 0x80, CHR 0x82],
      [CHR 0xE2, CHR 0x80, CHR 0x83], [CHR 0xE2, CHR 0x80, CHR 0x84], [CHR 0xE2, CHR 0x80, CHR 0x85],
      [CHR 0xE2, CHR 0x80, CHR 0x86], [CHR 0xE2, CHR 0x80, CHR 0x87], [CHR 0xE2, CHR 0x80, CHR 0x88],
      [CHR 0xE2, CHR 0x80, CHR 0x89], [CHR 0xE2, CHR 0x80, CHR 0x8A],
      [CHR 0xE2, CHR 0x80, CHR 0xA8], [CHR 0xE2, CHR 0x80, CHR 0xA9], [CHR 0xE2, CHR 0x80, CHR 0xAF],
      [CHR 0xE2, CHR 0x81, CHR 0x9F],
      [CHR 0xE3, CHR 0x80, CHR 0x80]]"

fun blank_wide :: "string \<Rightarrow> string" where
  "blank_wide (a # b # c # cs) =
     (if [a, b, c] \<in> set wide_spaces then CHR '' '' # blank_wide cs
      else if [a, b] \<in> set wide_spaces then CHR '' '' # blank_wide (c # cs)
      else a # blank_wide (b # c # cs))"
| "blank_wide [a, b] = (if [a, b] \<in> set wide_spaces then [CHR '' ''] else [a, b])"
| "blank_wide cs = cs"

fun split_from :: "string \<Rightarrow> string \<Rightarrow> string list" where
  "split_from tok [] = (if tok = [] then [] else [tok])"
| "split_from tok (c # cs) =
     (if is_space c then (if tok = [] then split_from [] cs else tok # split_from [] cs)
      else split_from (tok @ [c]) cs)"

definition py_split :: "string \<Rightarrow> string list" where
  "py_split s = split_from [] (blank_wide s)"

text \<open>\<open>sep.join(xs)\<close> on a list of strings.\<close>

fun join :: "string \<Rightarrow> string list \<Rightarrow> string" where
  "join sep [] = []"
| "join sep [x] = x"
| "join sep (x # y # ys) = x @ sep @ join sep (y # ys)"

fun str_of :: "cell \<Rightarrow> string" where
  "str_of (Str s) = s"
| "str_of _ = []"

text \<open>The directory part of a path: the text before its last slash.\<close>

definition dirname :: "string \<Rightarrow> string" where
  "dirname path = rev (tl (dropWhile (\<lambda>c. c \<noteq> CHR ''/'') (rev path)))"

text \<open>
  \<open>open(path, 'w')\<close>: the file is created or emptied. It fails when the directory of the
  path does not exist and when the path names a directory.
\<close>

definition open_w :: "os_state \<Rightarrow> string \<Rightarrow> error + os_state" where
  "open_w st path =
     (if path \<in> dirs st then Inl IsADirectoryError
      else if dirname path \<notin> dirs st then Inl FileNotFoundError
      else Inr (st\<lparr>files := (files st)(path \<mapsto> [])\<rparr>))"

text \<open>\<open>f.write(text)\<close> on a file just opened for writing.\<close>

definition file_write :: "os_state \<Rightarrow> string \<Rightarrow> string \<Rightarrow> os_state" where
  "file_write st path text = st\<lparr>files := (files st)(path \<mapsto> the (files st path) @ text)\<rparr>"

definition snapshot_path :: "string \<Rightarrow> string \<Rightarrow> string" where
  "snapshot_path index formatted_date = index @ ''/'' @ index @ ''_'' @ formatted_date @ ''.csv''"

definition skip_message :: "string \<Rightarrow> string" where
  "skip_message date = ''Skipping date '' @ date @ '' due to non-string components''"

text \<open>The body of the loop of components\_to\_separate\_csv, for one item of the dict.\<close>

definition write_components :: "string \<Rightarrow> string \<times> cell list \<Rightarrow> os_state \<Rightarrow> error + os_state" where
  "write_components index item st =
     (let date = fst item; components_list = snd item in
      if list_all is_str components_list then
        (case py_split date of
           [] \<Rightarrow> Inl IndexError
         | formatted_date # _ \<Rightarrow>
             (let path = snapshot_path index formatted_date in
              case open_w st path of
                Inl e \<Rightarrow> Inl e
              | Inr st' \<Rightarrow> Inr (file_write st' path (join '','' (map str_of components_list)))))
      else Inr (st\<lparr>stdout := stdout st @ [skip_message date]\<rparr>))"

text \<open>components\_to\_separate\_csv: the items of the dict in its order.\<close>

fun components_to_separate_csv ::
  "(string \<times> cell list) list \<Rightarrow> string \<Rightarrow> os_state \<Rightarrow> error + os_state" where
  "components_to_separate_csv [] index st = Inr st"
| "components_to_separate_csv (item # items) index st =
     (case write_components index item st of
        Inl e \<Rightarrow> Inl e
      | Inr st' \<Rightarrow> components_to_separate_csv items index st')"

subsection \<open>Notions for stating what the writer does\<close>

text \<open>
  An item of the dict passes the test of line 134 when all its components are strings;
  then the file it goes to is named after the first word of its date, and holds its
  components joined by commas. The file can be opened when the date has a first word,
  the directory of the path exists and the path is no directory. \<open>written\<close> is the
  content of the files after the items that pass have been stored one after the other.
\<close>

definition all_str :: "string \<times> cell list \<Rightarrow> bool" where
  "all_str item = list_all is_str (snd item)"

definition item_path :: "string \<Rightarrow> string \<times> cell list \<Rightarrow> string" where
  "item_path index item = snapshot_path index (hd (py_split (fst item)))"

definition item_text :: "string \<times> cell list \<Rightarrow> string" where
  "item_text item = join '','' (map str_of (snd item))"

definition writable :: "string \<Rightarrow> string set \<Rightarrow> string \<times> cell list \<Rightarrow> bool" where
  "writable index ds item =
     (py_split (fst item) \<noteq> [] \<and> item_path index item \<notin> ds \<and> dirname (item_path index item) \<in> ds)"

fun written :: "string \<Rightarrow> (string \<times> cell list) list \<Rightarrow> (string \<rightharpoonup> string) \<Rightarrow> (string \<rightharpoonup> string)" where
  "written index [] fs = fs"
| "written index (item # items) fs =
     (if all_str item then written index items (fs(item_path index item \<mapsto> item_text item))
      else written index items fs)"

subsection \<open>Example tables\<close>

text \<open>
  The scenarios of section 8 of the spec: a legend table without a symbol column, the
  components table with the rows AAPL, MSFT, GOOG, and a table whose symbol column
  repeats a symbol and has an empty cell.
\<close>

definition example_legend :: dataframe where
  "example_legend = \<lparr>index_name = None, columns = [''Note''], rows = [(Num 0, [Str ''See text''])]\<rparr>"

definition example_components :: dataframe where
  "example_components =
     \<lparr>index_name = None, columns = [''Symbol'', ''Security''],
      rows = [(Num 0, [Str ''AAPL'', Str ''Apple'']),
              (Num 1, [Str ''MSFT'', Str ''Microsoft'']),
              (Num 2, [Str ''GOOG'', Str ''Alphabet''])]\<rparr>"

definition example_duplicates :: dataframe where
  "example_duplicates =
     \<lparr>index_name = None, columns = [''Ticker symbol'', ''Security''],
      rows = [(Num 0, [Str ''MSFT'', Str ''Microsoft'']),
              (Num 1, [NaN, Str ''Unlisted'']),
              (Num 2, [Str ''AAPL'', Str ''Apple'']),
              (Num 3, [Str ''MSFT'', Str ''Microsoft again''])]\<rparr>"

text \<open>
  A wiki with one page of four revisions, and what surrounds the script in the examples:
  the endpoint over that wiki, renderings for three of the revisions (the fourth cannot be
  downloaded), a calendar of five sample dates, and a directory for the snapshots that
  already holds one file.
\<close>

definition example_page :: string where
  "example_page = ''List of S&P 500 companies''"

definition example_history :: "revision list" where
  "example_history =
     [\<lparr>revid = 102, timestamp = 20, user = ''bob'', comment = ''add legend''\<rparr>,
      \<lparr>revid = 101, timestamp = 10, user = ''ann'', comment = ''create page''\<rparr>,
      \<lparr>revid = 104, timestamp = 40, user = ''dan'', comment = ''rework''\<rparr>,
      \<lparr>revid = 103, timestamp = 30, user = ''cho'', comment = ''fix typo''\<rparr>]"

definition example_wiki :: wiki where
  "example_wiki = [example_page \<mapsto> example_history]"

definition example_env :: env where
  "example_env =
     \<lparr>S_get = mediawiki example_wiki,
      read_html = (\<lambda>url.
         if url = PageUrl example_page 101 then Inr [example_components]
         else if url = PageUrl example_page 102 then Inr [example_legend, example_components]
         else if url = PageUrl example_page 103 then Inr [example_legend, example_components]
         else Inl RequestError),
      date_range = (\<lambda>start end freq.
         case start of None \<Rightarrow> Inl ValueError
         | Some s \<Rightarrow> Inr (filter (\<lambda>d. s \<le> d \<and> d \<le> end) [15, 25, 35, 45, 55])),
      datetime_today = 60,
      date_today = 60,
      date_str = (\<lambda>d. if d = 15 then ''2015-01-01 00:00:00''
                       else if d = 25 then ''2015-04-01 00:00:00''
                       else if d = 35 then ''2015-07-01 00:00:00''
                       else if d = 45 then ''2015-10-01 00:00:00''
                       else ''2016-01-01 00:00:00'')\<rparr>"

definition example_sorted :: dataframe where
  "example_sorted =
     \<lparr>index_name = Some ''Symbol'', columns = [''Security''],
      rows = [(Str ''AAPL'', [Str ''Apple'']),
              (Str ''GOOG'', [Str ''Alphabet'']),
              (Str ''MSFT'', [Str ''Microsoft''])]\<rparr>"

text \<open>
  The text of a document with the legend and the components table, a library whose parser
  knows that text, the same library with ties in the opposite order, and downloads that
  serve the text for one revision each.
\<close>

definition example_html :: string where
  "example_html = ''<table><tr><th>Note</th></tr><tr><td>See text</td></tr></table><table><tr><th>Symbol</th><th>Security</th></tr><tr><td>AAPL</td><td>Apple</td></tr><tr><td>MSFT</td><td>Microsoft</td></tr><tr><td>GOOG</td><td>Alphabet</td></tr></table>''"

definition example_pandas :: pandas where
  "example_pandas =
     \<lparr>parse_html = (\<lambda>html. if html = example_html then Inr [example_legend, example_components]
                              else Inl ValueError),
      order_rows = sort_key fst\<rparr>"

definition example_pandas_reversed :: pandas where
  "example_pandas_reversed = example_pandas\<lparr>order_rows := (\<lambda>xs. sort_key fst (rev xs))\<rparr>"

definition example_download :: "int \<Rightarrow> page_url \<Rightarrow> error + string" where
  "example_download oldid url = (if url = PageUrl example_page oldid then Inr example_html else Inl RequestError)"

definition example_state :: os_state where
  "example_state =
     \<lparr>dirs = {''SPX''}, files = [''SPX/SPX_2015-01-01.csv'' \<mapsto> ''OLD''], stdout = []\<rparr>"

definition example_snapshots :: "(string \<times> cell list) list" where
  "example_snapshots =
     [(''2015-01-01 00:00:00'', [Str ''AAPL'', Str ''MSFT'']),
      (''2015-04-01 00:00:00'', [Str ''AAPL'', NaN]),
      (''2015-07-01 00:00:00'', [])]"

section \<open>Properties of the table scan\<close>

lemma count_list_distinct: "distinct xs \<Longrightarrow> x \<in> set xs \<Longrightarrow> count_list xs x = 1"
  by (induction xs) (auto simp: count_list_0_iff)

lemma drop_nth_position: "x \<in> set xs \<Longrightarrow> drop_nth (position x xs) xs = remove1 x xs"
  by (induction xs) (auto simp: drop_nth_def)

lemma set_index_wf:
  assumes "wf_frame t" "c \<in> set (columns t)"
  shows "set_index c t =
           Inr \<lparr>index_name = Some c, columns = remove1 c (columns t),
                rows = map (rekey (position c (columns t))) (rows t)\<rparr>"
  using assms by (simp add: set_index_def wf_frame_def count_list_distinct drop_nth_position)

lemma table_scan_match:
  "has_symbol_header t \<Longrightarrow> table_scan d (t # post) = map_sum id Some (set_index (symbol_column t) t)"
  by (auto simp: has_symbol_header_def symbol_column_def)

lemma table_scan_skip:
  "\<forall>p\<in>set pre. \<not> has_symbol_header p \<Longrightarrow> has_symbol_header t \<Longrightarrow>
     table_scan d (pre @ t # post) = map_sum id Some (set_index (symbol_column t) t)"
proof (induction pre arbitrary: d)
  case Nil
  then show ?case by (simp only: append_Nil table_scan_match)
next
  case (Cons p pre)
  from Cons.prems have "\<not> has_symbol_header p" by simp
  then have "table_scan d ((p # pre) @ t # post) = table_scan (Some p) (pre @ t # post)"
    by (simp add: has_symbol_header_def)
  with Cons show ?case by simp
qed

lemma table_scan_no_match:
  "\<forall>p\<in>set table. \<not> has_symbol_header p \<Longrightarrow>
     table_scan d table = Inr (if table = [] then d else Some (last table))"
  by (induction table arbitrary: d) (auto simp: has_symbol_header_def)

lemma symbol_column_in: "has_symbol_header t \<Longrightarrow> symbol_column t \<in> set (columns t)"
  by (auto simp: has_symbol_header_def symbol_column_def)

lemma index_labels_rekey: "map fst (map (rekey (position c (columns t))) (rows t)) = column_values c t"
  by (simp add: column_values_def rekey_def comp_def)

lemma sorted_str_of: "list_all is_str ls \<Longrightarrow> sorted ls \<Longrightarrow> sorted (map str_of ls)"
proof (induction ls)
  case Nil
  then show ?case by simp
next
  case (Cons a ls)
  have "str_of a \<le> str_of b" if "b \<in> set ls" for b
  proof -
    from Cons.prems that have "a \<le> b" "is_str a" "is_str b"
      by (auto simp: list_all_iff)
    then show ?thesis by (cases a; cases b) simp_all
  qed
  with Cons show ?case by simp
qed

lemma all_nan:
  "\<forall>x\<in>set ls. x = NaN \<Longrightarrow>
     filter (\<lambda>x. x \<noteq> NaN) ls = [] \<and> replicate (count_list ls NaN) NaN = ls"
  by (induction ls) auto

lemma nan_greatest: "NaN \<le> x \<Longrightarrow> x = NaN"
  by (cases x) simp_all

lemma sorted_nan_last:
  "sorted (ls :: cell list) \<Longrightarrow> ls = filter (\<lambda>x. x \<noteq> NaN) ls @ replicate (count_list ls NaN) NaN"
proof (induction ls)
  case Nil
  then show ?case by simp
next
  case (Cons a ls)
  show ?case
  proof (cases "a = NaN")
    case True
    with Cons.prems have "\<forall>x\<in>set ls. x = NaN"
      by (auto dest: nan_greatest)
    then have "filter (\<lambda>x. x \<noteq> NaN) ls = [] \<and> replicate (count_list ls NaN) NaN = ls"
      by (rule all_nan)
    with True show ?thesis by simp
  next
    case False
    with Cons show ?thesis by simp
  qed
qed

text \<open>
  A document with a frame that has a symbol column splits at the first such frame, so
  the shape \<open>pre @ t # post\<close> used below covers every such document.
\<close>

lemma first_symbol_frame:
  assumes "\<exists>t\<in>set table. has_symbol_header t"
  shows "\<exists>pre t post. table = pre @ t # post \<and> (\<forall>p\<in>set pre. \<not> has_symbol_header p)
           \<and> has_symbol_header t"
  using split_list_first_prop [OF assms] by blast

text \<open>
  What lines 98 to 106 return when the first frame with a symbol column is \<open>t\<close>: the rows
  of \<open>t\<close> re-keyed on that column and sorted by it.
\<close>

lemma components_table_match:
  assumes "table = pre @ t # post"
    and "\<forall>p\<in>set pre. \<not> has_symbol_header p"
    and "has_symbol_header t"
    and "wf_frame t"
    and "\<not> mixed (column_values (symbol_column t) t)"
  shows "components_table table =
           Inr \<lparr>index_name = Some ''Symbol'', columns = remove1 (symbol_column t) (columns t),
                rows = sort_key fst (map (rekey (position (symbol_column t) (columns t))) (rows t))\<rparr>"
  using assms
  by (simp add: components_table_def table_scan_skip set_index_wf symbol_column_in
      sort_index_def index_labels_def index_labels_rekey del: map_map)

text \<open>
  Claim C1. Let the parsed document be \<open>pre @ t # post\<close>, where no frame of \<open>pre\<close> has a
  column named "Symbol" or "Ticker symbol" and \<open>t\<close> has one. Then the scan returns a
  frame built from \<open>t\<close> alone (the frames of \<open>pre\<close> are skipped, those of \<open>post\<close> are
  never looked at): its index is named "Symbol", the matched column has left the
  columns, its rows are the rows of \<open>t\<close> re-keyed on the matched column, and they are in
  ascending order of the symbol. On text the order is the lexicographic order of the
  character codes, so it is case sensitive. The frame \<open>t\<close> is as pandas parses a table
  (unique column labels, one cell per column), and its symbol column holds text or
  numbers, not both.
\<close>

theorem components_table_first_match_sorted:
  assumes "table = pre @ t # post"
    and "\<forall>p\<in>set pre. \<not> has_symbol_header p"
    and "has_symbol_header t"
    and "wf_frame t"
    and "\<not> mixed (column_values (symbol_column t) t)"
  shows "\<exists>df. components_table table = Inr df
           \<and> index_name df = Some ''Symbol''
           \<and> columns df = remove1 (symbol_column t) (columns t)
           \<and> mset (rows df) = mset (map (rekey (position (symbol_column t) (columns t))) (rows t))
           \<and> mset (index_labels df) = mset (column_values (symbol_column t) t)
           \<and> sorted (index_labels df)
           \<and> (list_all is_str (index_labels df) \<longrightarrow> sorted (map str_of (index_labels df)))"
proof -
  let ?df = "\<lparr>index_name = Some ''Symbol'', columns = remove1 (symbol_column t) (columns t),
                rows = sort_key fst (map (rekey (position (symbol_column t) (columns t))) (rows t))\<rparr>"
  have r: "components_table table = Inr ?df"
    using assms by (rule components_table_match)
  have s: "sorted (index_labels ?df)"
    by (simp add: index_labels_def del: map_map)
  have m: "mset (index_labels ?df) = mset (column_values (symbol_column t) t)"
  proof -
    have "mset (index_labels ?df)
            = mset (map fst (map (rekey (position (symbol_column t) (columns t))) (rows t)))"
      by (simp only: index_labels_def dataframe.simps mset_map mset_sort)
    then show ?thesis by (simp only: index_labels_rekey)
  qed
  from r s m sorted_str_of show ?thesis by auto
qed

theorem components_table_first_match_sorted_witness:
  "\<exists>df. components_table [example_legend, example_components] = Inr df
           \<and> index_name df = Some ''Symbol''
           \<and> columns df = remove1 (symbol_column example_components) (columns example_components)
           \<and> mset (rows df)
               = mset (map (rekey (position (symbol_column example_components) (columns example_components)))
                        (rows example_components))
           \<and> mset (index_labels df)
               = mset (column_values (symbol_column example_components) example_components)
           \<and> sorted (index_labels df)
           \<and> (list_all is_str (index_labels df) \<longrightarrow> sorted (map str_of (index_labels df)))"
proof -
  have h1: "[example_legend, example_components] = [example_legend] @ example_components # []"
    by simp
  have h2: "\<forall>p\<in>set [example_legend]. \<not> has_symbol_header p"
    by (simp add: has_symbol_header_def example_legend_def)
  have h3: "has_symbol_header example_components"
    by (simp add: has_symbol_header_def example_components_def)
  have h4: "wf_frame example_components"
    by (simp add: wf_frame_def example_components_def)
  have h5: "\<not> mixed (column_values (symbol_column example_components) example_components)"
    by (simp add: mixed_def column_values_def symbol_column_def example_components_def)
  show ?thesis
    by (rule components_table_first_match_sorted [OF h1 h2 h3 h4 h5])
qed

text \<open>
  Claim C2 asks for a failure when no frame has a symbol column. The loop has no branch
  for that case: when it runs off the end of a document with at least one table, the loop
  variable still holds the last frame scanned, and that frame is returned with its index
  renamed to "Symbol" and sorted by its old index.
\<close>

theorem components_table_no_match_returns_last:
  assumes "table \<noteq> []"
    and "\<forall>p\<in>set table. \<not> has_symbol_header p"
    and "\<not> mixed (index_labels (last table))"
  shows "components_table table =
           Inr ((last table)\<lparr>index_name := Some ''Symbol'', rows := sort_key fst (rows (last table))\<rparr>)"
  using assms
  by (simp add: components_table_def table_scan_no_match sort_index_def index_labels_def)

theorem components_table_no_match_returns_last_witness:
  "components_table [example_legend] =
     Inr \<lparr>index_name = Some ''Symbol'', columns = [''Note''], rows = [(Num 0, [Str ''See text''])]\<rparr>"
proof -
  have h1: "[example_legend] \<noteq> []"
    by simp
  have h2: "\<forall>p\<in>set [example_legend]. \<not> has_symbol_header p"
    by (simp add: has_symbol_header_def example_legend_def)
  have h3: "\<not> mixed (index_labels (last [example_legend]))"
    by (simp add: mixed_def index_labels_def example_legend_def)
  from components_table_no_match_returns_last [OF h1 h2 h3] show ?thesis
    by (simp add: example_legend_def)
qed

text \<open>
  Claim C3 asks for a failure when the symbol column repeats a symbol or has an empty
  cell. The example table has the symbol MSFT twice and one empty symbol cell, and the
  scan returns all four of its rows.
\<close>

theorem components_table_duplicates_counterexample:
  "\<not> distinct (column_values ''Ticker symbol'' example_duplicates)
   \<and> NaN \<in> set (column_values ''Ticker symbol'' example_duplicates)
   \<and> components_table [example_duplicates] =
       Inr \<lparr>index_name = Some ''Symbol'', columns = [''Security''],
            rows = [(Str ''AAPL'', [Str ''Apple'']),
                    (Str ''MSFT'', [Str ''Microsoft'']),
                    (Str ''MSFT'', [Str ''Microsoft again'']),
                    (NaN, [Str ''Unlisted''])]\<rparr>"
  by (simp add: components_table_def example_duplicates_def set_index_def sort_index_def
      index_labels_def mixed_def rekey_def drop_nth_def column_values_def)

text \<open>
  Claim C3 as amended. For a matched frame \<open>t\<close> (as in C1) the scan does not fail,
  whatever the symbol column holds: the result has as many rows as \<open>t\<close>, its rows are
  the rows of \<open>t\<close> re-keyed on the symbol column, every value of
  the symbol column labels as many rows of the result as cells of the column hold it
  (a repeated symbol stays repeated), and the rows with an empty symbol come last.
\<close>

theorem components_table_keeps_duplicates_and_empty:
  assumes "table = pre @ t # post"
    and "\<forall>p\<in>set pre. \<not> has_symbol_header p"
    and "has_symbol_header t"
    and "wf_frame t"
    and "\<not> mixed (column_values (symbol_column t) t)"
  shows "\<exists>df. components_table table = Inr df
           \<and> length (rows df) = length (rows t)
           \<and> mset (rows df) = mset (map (rekey (position (symbol_column t) (columns t))) (rows t))
           \<and> (\<forall>s. count_list (index_labels df) s = count_list (column_values (symbol_column t) t) s)
           \<and> index_labels df =
               filter (\<lambda>x. x \<noteq> NaN) (index_labels df)
                 @ replicate (count_list (column_values (symbol_column t) t) NaN) NaN"
proof -
  let ?c = "symbol_column t"
  let ?df = "\<lparr>index_name = Some ''Symbol'', columns = remove1 ?c (columns t),
                rows = sort_key fst (map (rekey (position ?c (columns t))) (rows t))\<rparr>"
  have r: "components_table table = Inr ?df"
    using assms by (rule components_table_match)
  have "mset (index_labels ?df) = mset (map fst (map (rekey (position ?c (columns t))) (rows t)))"
    by (simp only: index_labels_def dataframe.simps mset_map mset_sort)
  then have m: "mset (index_labels ?df) = mset (column_values ?c t)"
    by (simp only: index_labels_rekey)
  have c: "count_list (index_labels ?df) s = count_list (column_values ?c t) s" for s
    using m by (metis count_mset)
  have "sorted (index_labels ?df)"
    by (simp add: index_labels_def del: map_map)
  then have n: "index_labels ?df =
      filter (\<lambda>x. x \<noteq> NaN) (index_labels ?df) @ replicate (count_list (index_labels ?df) NaN) NaN"
    by (rule sorted_nan_last)
  have l: "length (rows ?df) = length (rows t)"
    by simp
  have w: "mset (rows ?df) = mset (map (rekey (position ?c (columns t))) (rows t))"
    by simp
  from r c n l w show ?thesis by (metis (no_types, lifting))
qed

theorem components_table_keeps_duplicates_and_empty_witness:
  "\<exists>df. components_table [example_duplicates] = Inr df
           \<and> length (rows df) = length (rows example_duplicates)
           \<and> mset (rows df)
               = mset (map (rekey (position (symbol_column example_duplicates) (columns example_duplicates)))
                        (rows example_duplicates))
           \<and> (\<forall>s. count_list (index_labels df) s
                  = count_list (column_values (symbol_column example_duplicates) example_duplicates) s)
           \<and> index_labels df =
               filter (\<lambda>x. x \<noteq> NaN) (index_labels df)
                 @ replicate
                     (count_list (column_values (symbol_column example_duplicates) example_duplicates) NaN)
                     NaN"
proof -
  have h1: "[example_duplicates] = [] @ example_duplicates # []"
    by simp
  have h2: "\<forall>p\<in>set []. \<not> has_symbol_header p"
    by simp
  have h3: "has_symbol_header example_duplicates"
    by (simp add: has_symbol_header_def example_duplicates_def)
  have h4: "wf_frame example_duplicates"
    by (simp add: wf_frame_def example_duplicates_def)
  have h5: "\<not> mixed (column_values (symbol_column example_duplicates) example_duplicates)"
    by (simp add: mixed_def column_values_def symbol_column_def example_duplicates_def)
  show ?thesis
    by (rule components_table_keeps_duplicates_and_empty [OF h1 h2 h3 h4 h5])
qed

section \<open>Properties of the revision lookup and the history loop\<close>

lemma get_revisions_metadata_log:
  "get_revisions_metadata E page rvstart rvend rvdir rvlimit kwargs log =
     (fst (get_revisions_metadata E page rvstart rvend rvdir rvlimit kwargs []),
      log @ [ApiGet (revisions_query page rvstart rvend rvdir rvlimit kwargs)])"
  by (simp add: get_revisions_metadata_def Let_def split: sum.splits option.splits list.splits)

lemma fetch_components_log:
  "fetch_components E page revision log =
     (fst (fetch_components E page revision []), log @ [PageGet (PageUrl page (revid revision))])"
  by (simp add: fetch_components_def Let_def split: sum.splits)

lemma get_index_components_at_log:
  "get_index_components_at E index when log =
     (fst (get_index_components_at E index when []), log @ snd (get_index_components_at E index when []))"
proof -
  have a: "get_revisions_metadata E page rvstart rvend rvdir rvlimit kwargs [] =
     (fst (get_revisions_metadata E page rvstart rvend rvdir rvlimit kwargs []),
      [ApiGet (revisions_query page rvstart rvend rvdir rvlimit kwargs)])"
    for page rvstart rvend rvdir rvlimit kwargs
    using get_revisions_metadata_log [of E page rvstart rvend rvdir rvlimit kwargs "[]"] by simp
  show ?thesis
    unfolding get_index_components_at_def Let_def
    apply (cases "wikipedia_pages index")
     apply simp
    apply (simp only: option.case)
    apply (subst (1 2 3) get_revisions_metadata_log)
    apply (subst (1 2 3) fetch_components_log)
    apply (simp split: sum.splits list.splits)
    done
qed

lemma revisions_query_plain:
  "revisions_query page rvstart rvend rvdir n [] ''titles'' = Some (PStr page)"
  "revisions_query page rvstart rvend rvdir n [] ''rvdir'' = Some (PStr rvdir)"
  "revisions_query page rvstart rvend rvdir n [] ''rvlimit'' = Some (PInt n)"
  "time_param (revisions_query page rvstart rvend rvdir n []) ''rvstart'' = rvstart"
  "time_param (revisions_query page rvstart rvend rvdir n []) ''rvend'' = rvend"
  by (simp_all add: revisions_query_def time_param_def isoformat_def Let_def split: option.splits)

lemma mediawiki_plain:
  assumes "rvdir = ''older'' \<or> rvdir = ''newer''" "1 \<le> n"
  shows "mediawiki w (revisions_query page rvstart rvend rvdir n []) =
     (case w page of
        None \<Rightarrow> Inr \<lparr>query_pages = Some [\<lparr>title = page, revisions = None\<rparr>]\<rparr>
      | Some revs \<Rightarrow>
          (let found = take (nat n) (listed rvdir rvstart rvend revs)
           in Inr \<lparr>query_pages = Some [\<lparr>title = page, revisions = (if found = [] then None else Some found)\<rparr>]\<rparr>))"
  using assms unfolding mediawiki_def by (auto simp add: revisions_query_plain split: option.splits)

lemma get_revisions_metadata_mediawiki:
  assumes "S_get E = mediawiki w" "w page = Some history" "rvdir = ''older'' \<or> rvdir = ''newer''"
  shows "fst (get_revisions_metadata E page rvstart rvend rvdir 1 [] log) =
     (case listed rvdir rvstart rvend history of [] \<Rightarrow> Inl KeyError | r # _ \<Rightarrow> Inr [r])"
proof -
  have "mediawiki w (revisions_query page rvstart rvend rvdir 1 []) =
      (let found = take (nat 1) (listed rvdir rvstart rvend history)
           in Inr \<lparr>query_pages = Some [\<lparr>title = page, revisions = (if found = [] then None else Some found)\<rparr>]\<rparr>)"
    using assms by (simp add: mediawiki_plain)
  then show ?thesis
    using assms(1) by (simp add: get_revisions_metadata_def Let_def split: list.splits)
qed

lemma sorted_last_max: "sorted (map f xs) \<Longrightarrow> x \<in> set xs \<Longrightarrow> f x \<le> f (last xs)"
  by (induction xs) (auto split: if_splits)

lemma sorted_hd_min: "sorted (map f xs) \<Longrightarrow> x \<in> set xs \<Longrightarrow> f (hd xs) \<le> f x"
  by (cases xs) auto

lemma listed_set: "set (listed rvdir rvstart rvend revs) = {r \<in> set revs. in_range rvdir rvstart rvend r}"
  by (simp add: listed_def Let_def)

lemma listed_older_hd:
  assumes "listed ''older'' rvstart rvend revs = r # rs" "r' \<in> set revs" "in_range ''older'' rvstart rvend r'"
  shows "timestamp r' \<le> timestamp r"
proof -
  let ?s = "sort_key timestamp (filter (in_range ''older'' rvstart rvend) revs)"
  from assms(1) have "rev ?s = r # rs" by (simp add: listed_def)
  then have "?s = rev rs @ [r]" by (metis rev.simps(2) rev_rev_ident)
  then have "last ?s = r" by simp
  moreover have "timestamp r' \<le> timestamp (last ?s)"
    using assms(2,3) by (intro sorted_last_max) simp_all
  ultimately show ?thesis by simp
qed

lemma listed_newer_hd:
  assumes "listed ''newer'' rvstart rvend revs = r # rs" "r' \<in> set revs" "in_range ''newer'' rvstart rvend r'"
  shows "timestamp r \<le> timestamp r'"
proof -
  let ?s = "sort_key timestamp (filter (in_range ''newer'' rvstart rvend) revs)"
  from assms(1) have "?s = r # rs" by (simp add: listed_def)
  then have "hd ?s = r" by simp
  moreover have "timestamp (hd ?s) \<le> timestamp r'"
    using assms(2,3) by (intro sorted_hd_min) simp_all
  ultimately show ?thesis by simp
qed

lemma older_lookup:
  assumes "S_get E = mediawiki w" and "w page = Some history"
  shows "case fst (get_revisions_metadata E page (Some d) None ''older'' 1 [] log) of
            Inl e \<Rightarrow> e = KeyError \<and> (\<forall>r\<in>set history. d < timestamp r)
          | Inr revs \<Rightarrow> \<exists>r\<in>set history. revs = [r] \<and> timestamp r \<le> d
                \<and> (\<forall>r'\<in>set history. timestamp r' \<le> d \<longrightarrow> timestamp r' \<le> timestamp r)"
proof (cases "listed ''older'' (Some d) None history")
  case Nil
  then have "{r \<in> set history. in_range ''older'' (Some d) None r} = {}"
    using listed_set [of "''older''" "Some d" None history] by simp
  then have "\<forall>r\<in>set history. d < timestamp r"
    by (auto simp: in_range_def)
  with Nil show ?thesis
    using assms by (simp add: get_revisions_metadata_mediawiki)
next
  case (Cons r rs)
  then have "r \<in> set (listed ''older'' (Some d) None history)"
    by simp
  then have "r \<in> {r \<in> set history. in_range ''older'' (Some d) None r}"
    by (simp only: listed_set)
  then have a: "r \<in> set history" "timestamp r \<le> d"
    by (auto simp: in_range_def)
  have b: "timestamp r' \<le> timestamp r" if "r' \<in> set history" "timestamp r' \<le> d" for r'
    using Cons that by (intro listed_older_hd [of "Some d" None history r rs r']) (simp_all add: in_range_def)
  from a b Cons show ?thesis
    using assms by (simp add: get_revisions_metadata_mediawiki)
qed

lemma newer_lookup:
  assumes "S_get E = mediawiki w" and "w page = Some history"
  shows "case fst (get_revisions_metadata E page (Some d) None ''newer'' 1 [] log) of
            Inl e \<Rightarrow> e = KeyError \<and> (\<forall>r\<in>set history. timestamp r < d)
          | Inr revs \<Rightarrow> \<exists>r\<in>set history. revs = [r] \<and> d \<le> timestamp r
                \<and> (\<forall>r'\<in>set history. d \<le> timestamp r' \<longrightarrow> timestamp r \<le> timestamp r')"
proof (cases "listed ''newer'' (Some d) None history")
  case Nil
  then have "{r \<in> set history. in_range ''newer'' (Some d) None r} = {}"
    using listed_set [of "''newer''" "Some d" None history] by simp
  then have "\<forall>r\<in>set history. timestamp r < d"
    by (auto simp: in_range_def)
  with Nil show ?thesis
    using assms by (simp add: get_revisions_metadata_mediawiki)
next
  case (Cons r rs)
  then have "r \<in> set (listed ''newer'' (Some d) None history)"
    by simp
  then have "r \<in> {r \<in> set history. in_range ''newer'' (Some d) None r}"
    by (simp only: listed_set)
  then have a: "r \<in> set history" "d \<le> timestamp r"
    by (auto simp: in_range_def)
  have b: "timestamp r \<le> timestamp r'" if "r' \<in> set history" "d \<le> timestamp r'" for r'
    using Cons that by (intro listed_newer_hd [of "Some d" None history r rs r']) (simp_all add: in_range_def)
  from a b Cons show ?thesis
    using assms by (simp add: get_revisions_metadata_mediawiki)
qed

lemma get_index_components_at_cases:
  assumes "wikipedia_pages index = Some page"
  shows "get_index_components_at E index (Some d) log =
     (case fst (get_revisions_metadata E page (Some d) None ''older'' 1 [] []) of
        Inl e \<Rightarrow> (Inl e, log @ [ApiGet (revisions_query page (Some d) None ''older'' 1 [])])
      | Inr [] \<Rightarrow> (Inl IndexError, log @ [ApiGet (revisions_query page (Some d) None ''older'' 1 [])])
      | Inr (r # _) \<Rightarrow>
          (case read_html E (PageUrl page (revid r)) of
             Inl e \<Rightarrow> Inl e
           | Inr table \<Rightarrow> components_table table,
           log @ [ApiGet (revisions_query page (Some d) None ''older'' 1 []),
                  PageGet (PageUrl page (revid r))]))"
  using assms
  by (simp add: get_index_components_at_def get_revisions_metadata_def fetch_components_def Let_def
      split: sum.splits list.splits option.splits)

text \<open>
  Claim C4. Let the answer of the endpoint to the lookup of get\_index\_components\_at
  (direction older, starting at the date \<open>d\<close>, one revision) carry no revision for the
  page: the page object has no \<open>'revisions'\<close> key, or an empty list under it. Then
  get\_index\_components\_at raises (KeyError at \<open>pages[0]['revisions']\<close> in the first
  case, IndexError at \<open>revisions[0]\<close> in the second), and the lookup is the only
  request it has sent: nothing is downloaded and no table is returned. These uncaught
  exceptions are what the script has where the spec says NotFoundError.
\<close>

theorem lookup_without_revisions_fails:
  assumes "wikipedia_pages index = Some page"
    and "S_get E (revisions_query page (Some d) None ''older'' 1 []) = Inr data"
    and "query_pages data = Some (p # ps)"
    and "revisions p = None \<or> revisions p = Some []"
  shows "get_index_components_at E index (Some d) log =
           (Inl (if revisions p = None then KeyError else IndexError),
            log @ [ApiGet (revisions_query page (Some d) None ''older'' 1 [])])"
  using assms
  by (auto simp add: get_index_components_at_def get_revisions_metadata_def Let_def)

lemma example_lookup_5:
  "mediawiki example_wiki (revisions_query example_page (Some 5) None ''older'' 1 [])
     = Inr \<lparr>query_pages = Some [\<lparr>title = example_page, revisions = None\<rparr>]\<rparr>"
  by (simp add: mediawiki_plain example_wiki_def example_history_def listed_def in_range_def)

lemma example_spx: "wikipedia_pages ''SPX'' = Some example_page"
  by (simp add: wikipedia_pages_def example_page_def)

theorem lookup_without_revisions_fails_witness:
  "get_index_components_at example_env ''SPX'' (Some 5) [] =
     (Inl KeyError, [ApiGet (revisions_query example_page (Some 5) None ''older'' 1 [])])"
proof -
  let ?p = "\<lparr>title = example_page, revisions = None\<rparr>"
  have h2: "S_get example_env (revisions_query example_page (Some 5) None ''older'' 1 [])
              = Inr \<lparr>query_pages = Some [?p]\<rparr>"
    by (simp add: example_env_def example_lookup_5)
  have h3: "query_pages \<lparr>query_pages = Some [?p]\<rparr> = Some (?p # [])"
    by simp
  have h4: "revisions ?p = None \<or> revisions ?p = Some []"
    by simp
  from lookup_without_revisions_fails [OF example_spx h2 h3 h4, of "[]"] show ?thesis
    by simp
qed

text \<open>
  Claim C5. Against the endpoint over a wiki \<open>w\<close> that knows the page, a lookup for one
  revision starting at the date \<open>d\<close> either fails with KeyError, and then no revision of
  the page lies on the requested side of \<open>d\<close>, or returns exactly one revision of the
  page: with direction older its timestamp is at most \<open>d\<close> and no revision at or before
  \<open>d\<close> is later; with direction newer its timestamp is at least \<open>d\<close> and no revision
  at or after \<open>d\<close> is earlier. Any page that get\_index\_components\_at downloads for
  the date \<open>d\<close> is a revision of the page with a timestamp of at most \<open>d\<close>.
\<close>

theorem nearest_revision_on_requested_side:
  assumes "S_get E = mediawiki w" and "w page = Some history"
  shows "(case fst (get_revisions_metadata E page (Some d) None ''older'' 1 [] log) of
            Inl e \<Rightarrow> e = KeyError \<and> (\<forall>r\<in>set history. d < timestamp r)
          | Inr revs \<Rightarrow> \<exists>r\<in>set history. revs = [r] \<and> timestamp r \<le> d
                \<and> (\<forall>r'\<in>set history. timestamp r' \<le> d \<longrightarrow> timestamp r' \<le> timestamp r))
       \<and> (case fst (get_revisions_metadata E page (Some d) None ''newer'' 1 [] log) of
            Inl e \<Rightarrow> e = KeyError \<and> (\<forall>r\<in>set history. timestamp r < d)
          | Inr revs \<Rightarrow> \<exists>r\<in>set history. revs = [r] \<and> d \<le> timestamp r
                \<and> (\<forall>r'\<in>set history. d \<le> timestamp r' \<longrightarrow> timestamp r \<le> timestamp r'))
       \<and> (\<forall>index u. wikipedia_pages index = Some page
              \<and> PageGet u \<in> set (snd (get_index_components_at E index (Some d) []))
            \<longrightarrow> (\<exists>r\<in>set history. u = PageUrl page (revid r) \<and> timestamp r \<le> d))"
proof (intro conjI allI impI)
  show "case fst (get_revisions_metadata E page (Some d) None ''older'' 1 [] log) of
            Inl e \<Rightarrow> e = KeyError \<and> (\<forall>r\<in>set history. d < timestamp r)
          | Inr revs \<Rightarrow> \<exists>r\<in>set history. revs = [r] \<and> timestamp r \<le> d
                \<and> (\<forall>r'\<in>set history. timestamp r' \<le> d \<longrightarrow> timestamp r' \<le> timestamp r)"
    using assms by (rule older_lookup)
  show "case fst (get_revisions_metadata E page (Some d) None ''newer'' 1 [] log) of
            Inl e \<Rightarrow> e = KeyError \<and> (\<forall>r\<in>set history. timestamp r < d)
          | Inr revs \<Rightarrow> \<exists>r\<in>set history. revs = [r] \<and> d \<le> timestamp r
                \<and> (\<forall>r'\<in>set history. d \<le> timestamp r' \<longrightarrow> timestamp r \<le> timestamp r')"
    using assms by (rule newer_lookup)
next
  fix index u
  assume a: "wikipedia_pages index = Some page
      \<and> PageGet u \<in> set (snd (get_index_components_at E index (Some d) []))"
  have o: "case fst (get_revisions_metadata E page (Some d) None ''older'' 1 [] []) of
            Inl e \<Rightarrow> e = KeyError \<and> (\<forall>r\<in>set history. d < timestamp r)
          | Inr revs \<Rightarrow> \<exists>r\<in>set history. revs = [r] \<and> timestamp r \<le> d
                \<and> (\<forall>r'\<in>set history. timestamp r' \<le> d \<longrightarrow> timestamp r' \<le> timestamp r)"
    using assms by (rule older_lookup)
  from a have "get_index_components_at E index (Some d) [] =
     (case fst (get_revisions_metadata E page (Some d) None ''older'' 1 [] []) of
        Inl e \<Rightarrow> (Inl e, [] @ [ApiGet (revisions_query page (Some d) None ''older'' 1 [])])
      | Inr [] \<Rightarrow> (Inl IndexError, [] @ [ApiGet (revisions_query page (Some d) None ''older'' 1 [])])
      | Inr (r # _) \<Rightarrow>
          (case read_html E (PageUrl page (revid r)) of
             Inl e \<Rightarrow> Inl e
           | Inr table \<Rightarrow> components_table table,
           [] @ [ApiGet (revisions_query page (Some d) None ''older'' 1 []),
                  PageGet (PageUrl page (revid r))]))"
    by (intro get_index_components_at_cases) simp
  with a o show "\<exists>r\<in>set history. u = PageUrl page (revid r) \<and> timestamp r \<le> d"
    by (auto split: sum.splits list.splits)
qed

lemma dict_set_fresh: "k \<notin> fst ` set hc \<Longrightarrow> dict_set hc k v = hc @ [(k, v)]"
  by (induction hc) auto

lemma history_loop_ok:
  assumes "list_all2 (\<lambda>d df. fst (get_index_components_at E index (Some d) []) = Inr df) dates dfs"
    and "distinct (map (date_str E) dates)"
    and "set (map (date_str E) dates) \<inter> fst ` set hc = {}"
  shows "history_loop E index dates hc log =
           (Inr (hc @ zip (map (date_str E) dates) (map index_labels dfs)),
            log @ concat (map (\<lambda>d. snd (get_index_components_at E index (Some d) [])) dates))"
  using assms
proof (induction dates dfs arbitrary: hc log rule: list_all2_induct)
  case Nil
  then show ?case by simp
next
  case (Cons d dates df dfs)
  let ?k = "date_str E d"
  have g: "get_index_components_at E index (Some d) log =
      (Inr df, log @ snd (get_index_components_at E index (Some d) []))"
    using Cons.hyps(1) get_index_components_at_log [of E index "Some d" log] by simp
  from Cons.prems have fresh: "?k \<notin> fst ` set hc"
    by auto
  then have hc': "dict_set hc ?k (index_labels df) = hc @ [(?k, index_labels df)]"
    by (rule dict_set_fresh)
  have "set (map (date_str E) dates) \<inter> fst ` set (hc @ [(?k, index_labels df)]) = {}"
    using Cons.prems by auto
  with Cons.prems have
    "history_loop E index dates (hc @ [(?k, index_labels df)])
        (log @ snd (get_index_components_at E index (Some d) [])) =
      (Inr ((hc @ [(?k, index_labels df)]) @ zip (map (date_str E) dates) (map index_labels dfs)),
       (log @ snd (get_index_components_at E index (Some d) []))
         @ concat (map (\<lambda>d. snd (get_index_components_at E index (Some d) [])) dates))"
    by (intro Cons.IH) simp_all
  with g hc' show ?case by simp
qed

lemma history_loop_abort:
  assumes "list_all2 (\<lambda>d df. fst (get_index_components_at E index (Some d) []) = Inr df) pre dfs"
    and "fst (get_index_components_at E index (Some d) []) = Inl e"
  shows "history_loop E index (pre @ d # post) hc log =
           (Inl e,
            log @ concat (map (\<lambda>d. snd (get_index_components_at E index (Some d) [])) pre)
                @ snd (get_index_components_at E index (Some d) []))"
  using assms
proof (induction pre dfs arbitrary: hc log rule: list_all2_induct)
  case Nil
  have "get_index_components_at E index (Some d) log =
      (Inl e, log @ snd (get_index_components_at E index (Some d) []))"
    using Nil get_index_components_at_log [of E index "Some d" log] by simp
  then show ?case by simp
next
  case (Cons x pre df dfs)
  have g: "get_index_components_at E index (Some x) log =
      (Inr df, log @ snd (get_index_components_at E index (Some x) []))"
    using Cons.hyps(1) get_index_components_at_log [of E index "Some x" log] by simp
  show ?case
    using Cons.IH [OF Cons.prems] g by simp
qed

lemma get_index_components_at_requests:
  "length (snd (get_index_components_at E index when [])) \<le> 2"
  by (simp add: get_index_components_at_def get_revisions_metadata_def fetch_components_def Let_def
      split: sum.splits list.splits option.splits)

lemma get_index_components_at_success:
  assumes "fst (get_index_components_at E index (Some d) []) = Inr df"
  shows "\<exists>page r rs table. wikipedia_pages index = Some page
           \<and> fst (get_revisions_metadata E page (Some d) None ''older'' 1 [] []) = Inr (r # rs)
           \<and> snd (get_index_components_at E index (Some d) []) =
               [ApiGet (revisions_query page (Some d) None ''older'' 1 []),
                PageGet (PageUrl page (revid r))]
           \<and> read_html E (PageUrl page (revid r)) = Inr table
           \<and> components_table table = Inr df"
proof (cases "wikipedia_pages index")
  case None
  with assms show ?thesis by (simp add: get_index_components_at_def)
next
  case (Some page)
  from get_index_components_at_cases [OF Some, of E d "[]"] assms show ?thesis
    using Some by (fastforce split: sum.splits list.splits)
qed

lemma example_S_get: "S_get example_env = mediawiki example_wiki"
  by (simp add: example_env_def)

lemma example_wiki_page: "example_wiki example_page = Some example_history"
  by (simp add: example_wiki_def)

lemma example_listed_older:
  "listed ''older'' (Some 15) None example_history = [\<lparr>revid = 101, timestamp = 10, user = ''ann'', comment = ''create page''\<rparr>]"
  "hd (listed ''older'' (Some 25) None example_history) = \<lparr>revid = 102, timestamp = 20, user = ''bob'', comment = ''add legend''\<rparr>"
  "listed ''older'' (Some 25) None example_history \<noteq> []"
  "hd (listed ''older'' (Some 35) None example_history) = \<lparr>revid = 103, timestamp = 30, user = ''cho'', comment = ''fix typo''\<rparr>"
  "listed ''older'' (Some 35) None example_history \<noteq> []"
  "hd (listed ''older'' (Some 45) None example_history) = \<lparr>revid = 104, timestamp = 40, user = ''dan'', comment = ''rework''\<rparr>"
  "listed ''older'' (Some 45) None example_history \<noteq> []"
  by (simp_all add: listed_def in_range_def example_history_def)

theorem nearest_revision_on_requested_side_witness:
  "fst (get_revisions_metadata example_env example_page (Some 25) None ''older'' 1 [] [])
     = Inr [\<lparr>revid = 102, timestamp = 20, user = ''bob'', comment = ''add legend''\<rparr>]
   \<and> fst (get_revisions_metadata example_env example_page (Some 25) None ''newer'' 1 [] [])
     = Inr [\<lparr>revid = 103, timestamp = 30, user = ''cho'', comment = ''fix typo''\<rparr>]"
  using nearest_revision_on_requested_side [OF example_S_get example_wiki_page, of 25 "[]"]
  by (auto simp add: example_history_def split: sum.splits)

lemma example_tables:
  "components_table [example_components] = Inr example_sorted"
  "components_table [example_legend, example_components] = Inr example_sorted"
  by (simp_all add: components_table_def example_legend_def example_components_def example_sorted_def
      set_index_def sort_index_def index_labels_def mixed_def rekey_def drop_nth_def)

lemma example_lookup:
  "fst (get_revisions_metadata example_env example_page (Some d) None ''older'' 1 [] []) =
     (case listed ''older'' (Some d) None example_history of [] \<Rightarrow> Inl KeyError | r # _ \<Rightarrow> Inr [r])"
  by (rule get_revisions_metadata_mediawiki [OF example_S_get example_wiki_page]) simp

lemma example_read_html:
  "read_html example_env (PageUrl example_page 101) = Inr [example_components]"
  "read_html example_env (PageUrl example_page 102) = Inr [example_legend, example_components]"
  "read_html example_env (PageUrl example_page 103) = Inr [example_legend, example_components]"
  "read_html example_env (PageUrl example_page 104) = Inl RequestError"
  by (simp_all add: example_env_def)

lemma example_date_str:
  "date_str example_env 15 = ''2015-01-01 00:00:00''"
  "date_str example_env 25 = ''2015-04-01 00:00:00''"
  "date_str example_env 35 = ''2015-07-01 00:00:00''"
  by (simp_all add: example_env_def)

lemma example_at:
  "get_index_components_at example_env ''SPX'' (Some 15) [] =
     (Inr example_sorted, [ApiGet (revisions_query example_page (Some 15) None ''older'' 1 []),
                           PageGet (PageUrl example_page 101)])"
  "get_index_components_at example_env ''SPX'' (Some 25) [] =
     (Inr example_sorted, [ApiGet (revisions_query example_page (Some 25) None ''older'' 1 []),
                           PageGet (PageUrl example_page 102)])"
  "get_index_components_at example_env ''SPX'' (Some 35) [] =
     (Inr example_sorted, [ApiGet (revisions_query example_page (Some 35) None ''older'' 1 []),
                           PageGet (PageUrl example_page 103)])"
  "get_index_components_at example_env ''SPX'' (Some 45) [] =
     (Inl RequestError, [ApiGet (revisions_query example_page (Some 45) None ''older'' 1 []),
                         PageGet (PageUrl example_page 104)])"
  by (simp_all add: get_index_components_at_cases [OF example_spx] example_lookup
      listed_def in_range_def example_history_def example_tables example_read_html)

text \<open>
  Claim C6. Let \<open>dates\<close> be the sample dates that \<open>pd.date_range\<close> generates, with
  pairwise different renderings as dict keys, and let get\_index\_components\_at succeed
  for each of them, with the frames \<open>dfs\<close>. Then get\_index\_components\_history returns
  the dict whose items are, in the order of \<open>dates\<close>, the rendering of each date with the
  index labels of its frame; the requests it sends are those of the dates, one date after
  the other in the same order; and for each date they are the lookup with direction older
  starting at that date, then the download of the first revision the lookup returned,
  whose tables give the frame.
\<close>

theorem history_in_date_order:
  assumes "date_range E start_date (case end_date of None \<Rightarrow> date_today E | Some d \<Rightarrow> d) freq = Inr dates"
    and "distinct (map (date_str E) dates)"
    and "list_all2 (\<lambda>d df. fst (get_index_components_at E index (Some d) []) = Inr df) dates dfs"
  shows "get_index_components_history E index start_date end_date freq log =
           (Inr (zip (map (date_str E) dates) (map index_labels dfs)),
            log @ concat (map (\<lambda>d. snd (get_index_components_at E index (Some d) [])) dates))
       \<and> map fst (zip (map (date_str E) dates) (map index_labels dfs)) = map (date_str E) dates
       \<and> (\<forall>d\<in>set dates. \<exists>page r rs table df.
             wikipedia_pages index = Some page
           \<and> fst (get_revisions_metadata E page (Some d) None ''older'' 1 [] []) = Inr (r # rs)
           \<and> snd (get_index_components_at E index (Some d) []) =
               [ApiGet (revisions_query page (Some d) None ''older'' 1 []),
                PageGet (PageUrl page (revid r))]
           \<and> read_html E (PageUrl page (revid r)) = Inr table
           \<and> components_table table = Inr df)"
proof (intro conjI ballI)
  have "history_loop E index dates [] log =
           (Inr ([] @ zip (map (date_str E) dates) (map index_labels dfs)),
            log @ concat (map (\<lambda>d. snd (get_index_components_at E index (Some d) [])) dates))"
    using assms(3,2) by (rule history_loop_ok) simp
  with assms(1) show "get_index_components_history E index start_date end_date freq log =
           (Inr (zip (map (date_str E) dates) (map index_labels dfs)),
            log @ concat (map (\<lambda>d. snd (get_index_components_at E index (Some d) [])) dates))"
    by (simp add: get_index_components_history_def)
  from assms(3) have "length dates = length dfs"
    by (rule list_all2_lengthD)
  then show "map fst (zip (map (date_str E) dates) (map index_labels dfs)) = map (date_str E) dates"
    by simp
next
  fix d
  assume "d \<in> set dates"
  with assms(3) obtain df where "fst (get_index_components_at E index (Some d) []) = Inr df"
    by (auto simp: list_all2_conv_all_nth in_set_conv_nth)
  then have "\<exists>page r rs table. wikipedia_pages index = Some page
           \<and> fst (get_revisions_metadata E page (Some d) None ''older'' 1 [] []) = Inr (r # rs)
           \<and> snd (get_index_components_at E index (Some d) []) =
               [ApiGet (revisions_query page (Some d) None ''older'' 1 []),
                PageGet (PageUrl page (revid r))]
           \<and> read_html E (PageUrl page (revid r)) = Inr table
           \<and> components_table table = Inr df"
    by (rule get_index_components_at_success)
  then show "\<exists>page r rs table df.
             wikipedia_pages index = Some page
           \<and> fst (get_revisions_metadata E page (Some d) None ''older'' 1 [] []) = Inr (r # rs)
           \<and> snd (get_index_components_at E index (Some d) []) =
               [ApiGet (revisions_query page (Some d) None ''older'' 1 []),
                PageGet (PageUrl page (revid r))]
           \<and> read_html E (PageUrl page (revid r)) = Inr table
           \<and> components_table table = Inr df"
    by blast
qed

theorem history_in_date_order_witness:
  "get_index_components_history example_env ''SPX'' (Some 15) (Some 35) ''QS'' [] =
     (Inr [(''2015-01-01 00:00:00'', [Str ''AAPL'', Str ''GOOG'', Str ''MSFT'']),
           (''2015-04-01 00:00:00'', [Str ''AAPL'', Str ''GOOG'', Str ''MSFT'']),
           (''2015-07-01 00:00:00'', [Str ''AAPL'', Str ''GOOG'', Str ''MSFT''])],
      [ApiGet (revisions_query example_page (Some 15) None ''older'' 1 []),
       PageGet (PageUrl example_page 101),
       ApiGet (revisions_query example_page (Some 25) None ''older'' 1 []),
       PageGet (PageUrl example_page 102),
       ApiGet (revisions_query example_page (Some 35) None ''older'' 1 []),
       PageGet (PageUrl example_page 103)])"
proof -
  have h1: "date_range example_env (Some 15) (case Some 35 of None \<Rightarrow> date_today example_env | Some d \<Rightarrow> d) ''QS''
              = Inr [15, 25, 35]"
    by (simp add: example_env_def)
  have h2: "distinct (map (date_str example_env) [15, 25, 35])"
    by (simp add: example_date_str)
  have h3: "list_all2 (\<lambda>d df. fst (get_index_components_at example_env ''SPX'' (Some d) []) = Inr df)
              [15, 25, 35] [example_sorted, example_sorted, example_sorted]"
    by (simp add: example_at)
  from history_in_date_order [OF h1 h2 h3, of "[]"] show ?thesis
    by (simp add: example_at example_date_str example_sorted_def index_labels_def)
qed

text \<open>
  Claim C7. Let the sample dates be \<open>pre @ d # post\<close>, let get\_index\_components\_at
  succeed for every date of \<open>pre\<close> and raise \<open>e\<close> for \<open>d\<close>. Then
  get\_index\_components\_history raises \<open>e\<close>: its result is the error and carries no
  dict, so nothing of the dates of \<open>pre\<close> is returned. The requests it has sent are those
  of \<open>pre\<close> followed by those of the one call for \<open>d\<close>, at most a lookup and a
  download: the failing date is not tried again and no date of \<open>post\<close> is visited.
\<close>

theorem history_aborts_on_first_error:
  assumes "date_range E start_date (case end_date of None \<Rightarrow> date_today E | Some d \<Rightarrow> d) freq
             = Inr (pre @ d # post)"
    and "list_all2 (\<lambda>d df. fst (get_index_components_at E index (Some d) []) = Inr df) pre dfs"
    and "fst (get_index_components_at E index (Some d) []) = Inl e"
  shows "get_index_components_history E index start_date end_date freq log =
           (Inl e,
            log @ concat (map (\<lambda>d. snd (get_index_components_at E index (Some d) [])) pre)
                @ snd (get_index_components_at E index (Some d) []))
       \<and> length (snd (get_index_components_at E index (Some d) [])) \<le> 2"
proof
  have "history_loop E index (pre @ d # post) [] log =
           (Inl e,
            log @ concat (map (\<lambda>d. snd (get_index_components_at E index (Some d) [])) pre)
                @ snd (get_index_components_at E index (Some d) []))"
    using assms(2,3) by (rule history_loop_abort)
  with assms(1) show "get_index_components_history E index start_date end_date freq log =
           (Inl e,
            log @ concat (map (\<lambda>d. snd (get_index_components_at E index (Some d) [])) pre)
                @ snd (get_index_components_at E index (Some d) []))"
    by (simp add: get_index_components_history_def)
  show "length (snd (get_index_components_at E index (Some d) [])) \<le> 2"
    by (rule get_index_components_at_requests)
qed

theorem history_aborts_on_first_error_witness:
  "get_index_components_history example_env ''SPX'' (Some 25) (Some 55) ''QS'' [] =
     (Inl RequestError,
      [ApiGet (revisions_query example_page (Some 25) None ''older'' 1 []),
       PageGet (PageUrl example_page 102),
       ApiGet (revisions_query example_page (Some 35) None ''older'' 1 []),
       PageGet (PageUrl example_page 103),
       ApiGet (revisions_query example_page (Some 45) None ''older'' 1 []),
       PageGet (PageUrl example_page 104)])"
proof -
  have h1: "date_range example_env (Some 25) (case Some 55 of None \<Rightarrow> date_today example_env | Some d \<Rightarrow> d) ''QS''
              = Inr ([25, 35] @ 45 # [55])"
    by (simp add: example_env_def)
  have h2: "list_all2 (\<lambda>d df. fst (get_index_components_at example_env ''SPX'' (Some d) []) = Inr df)
              [25, 35] [example_sorted, example_sorted]"
    by (simp add: example_at)
  have h3: "fst (get_index_components_at example_env ''SPX'' (Some 45) []) = Inl RequestError"
    by (simp add: example_at)
  from history_aborts_on_first_error [OF h1 h2 h3, of "[]"] show ?thesis
    by (simp add: example_at)
qed

lemma stable_sorts_by_label: "sorts_by_label (sort_key fst)"
  by (simp add: sorts_by_label_def)

lemma sort_index_stable: "sort_index_with (sort_key fst) df = sort_index df"
  by (simp add: sort_index_with_def sort_index_def)

lemma components_table_stable: "components_table_with (sort_key fst) table = components_table table"
  by (simp add: components_table_with_def components_table_def sort_index_stable
      split: sum.splits option.splits)

lemma fetch_components_stable:
  assumes "read_html E = (\<lambda>url. case download url of Inl e \<Rightarrow> Inl e | Inr html \<Rightarrow> parse_html P html)"
    and "order_rows P = sort_key fst"
  shows "fetch_components_with P download page revision log = fetch_components E page revision log"
  using assms
  by (simp add: fetch_components_with_def fetch_components_def components_table_stable Let_def
      split: sum.splits)

lemma sorted_rows_unique:
  assumes "mset xs = mset ys" "sorted (map fst xs)" "sorted (map fst ys)" "distinct (map fst xs)"
  shows "xs = (ys :: frame_rows)"
proof -
  from assms(1) have s: "set xs = set ys"
    by (rule mset_eq_setD)
  from assms(1) have "mset (map fst xs) = mset (map fst ys)"
    by simp
  with assms(4) have d: "distinct (map fst ys)"
    by (metis mset_eq_imp_distinct_iff)
  from assms(4) have "inj_on fst (set xs)"
    by (simp add: distinct_map)
  with s have "inj_on fst (set xs \<union> set ys)"
    by simp
  then show ?thesis
    using assms(2,4,3) d s by (rule map_sorted_distinct_set_unique)
qed

lemma sorted_labels_unique:
  assumes "mset xs = mset ys" "sorted (map fst xs)" "sorted (map fst ys)"
  shows "map fst xs = map fst (ys :: frame_rows)"
proof -
  from assms(1) have "mset (map fst xs) = mset (map fst ys)"
    by simp
  with assms(2,3) show ?thesis
    by (metis properties_for_sort)
qed

lemma sort_index_with_ties:
  assumes "sorts_by_label order" "sorts_by_label order'"
  shows "same_up_to_ties (sort_index_with order df) (sort_index_with order' df)"
proof (cases "mixed (index_labels df)")
  case True
  then show ?thesis by (simp add: sort_index_with_def same_up_to_ties_def)
next
  case False
  let ?a = "order (rows df)" and ?b = "order' (rows df)"
  from False have "\<not> mixed (map fst (rows df))"
    by (simp add: index_labels_def)
  with assms have m: "mset ?a = mset ?b" and sa: "sorted (map fst ?a)" and sb: "sorted (map fst ?b)"
    by (simp_all add: sorts_by_label_def)
  have l: "map fst ?a = map fst ?b"
    using m sa sb by (rule sorted_labels_unique)
  have u: "?a = ?b" if "distinct (map fst ?a)"
    using m sa sb that by (rule sorted_rows_unique)
  from False m l u show ?thesis
    by (simp add: sort_index_with_def same_up_to_ties_def index_labels_def)
qed

lemma components_table_with_ties:
  assumes "sorts_by_label order" "sorts_by_label order'"
  shows "same_up_to_ties (components_table_with order table) (components_table_with order' table)"
proof (cases "table_scan None table")
  case (Inl e)
  then show ?thesis by (simp add: components_table_with_def same_up_to_ties_def)
next
  case (Inr d)
  show ?thesis
  proof (cases d)
    case None
    with Inr show ?thesis by (simp add: components_table_with_def same_up_to_ties_def)
  next
    case (Some df)
    with Inr sort_index_with_ties [OF assms, of "df\<lparr>index_name := Some ''Symbol''\<rparr>"]
    show ?thesis by (simp add: components_table_with_def)
  qed
qed

lemma components_table_with_sorted:
  assumes "sorts_by_label order" "components_table_with order table = Inr df"
  shows "index_name df = Some ''Symbol'' \<and> sorted (index_labels df)"
  using assms
  by (auto simp add: components_table_with_def sort_index_with_def sorts_by_label_def index_labels_def
      split: sum.splits option.splits if_splits)

text \<open>
  Claim C9. Take two runs of lines 96 to 106 that download the same document text, for
  any two pages and revisions and after any requests sent before. With one and the same
  library, whatever order its sort gives to equal labels, both runs return the same
  result: the same error or the same frame. A frame that is returned has its index named
  "Symbol" and its labels in ascending order. And the result does not rest on what the
  sort does with equal labels: a run with a library that parses alike and breaks ties
  otherwise returns the same error, or a frame with the same index name, columns, labels
  and rows, which is the same frame when no symbol occurs twice.
\<close>

theorem extraction_determined_by_content:
  assumes "sorts_by_label (order_rows P)"
    and "sorts_by_label (order_rows P')"
    and "parse_html P' = parse_html P"
    and "download_a (PageUrl page_a (revid rev_a)) = Inr html"
    and "download_b (PageUrl page_b (revid rev_b)) = Inr html"
  shows "fst (fetch_components_with P download_a page_a rev_a log_a)
           = fst (fetch_components_with P download_b page_b rev_b log_b)
       \<and> (\<forall>df. fst (fetch_components_with P download_a page_a rev_a log_a) = Inr df
              \<longrightarrow> index_name df = Some ''Symbol'' \<and> sorted (index_labels df))
       \<and> same_up_to_ties (fst (fetch_components_with P download_a page_a rev_a log_a))
                          (fst (fetch_components_with P' download_b page_b rev_b log_b))"
proof (cases "parse_html P html")
  case (Inl e)
  with assms(3,4,5) show ?thesis
    by (simp add: fetch_components_with_def same_up_to_ties_def)
next
  case (Inr table)
  have a: "fst (fetch_components_with P download_a page_a rev_a log_a) = components_table_with (order_rows P) table"
    using Inr assms(4) by (simp add: fetch_components_with_def)
  have b: "fst (fetch_components_with P download_b page_b rev_b log_b) = components_table_with (order_rows P) table"
    using Inr assms(5) by (simp add: fetch_components_with_def)
  have c: "fst (fetch_components_with P' download_b page_b rev_b log_b) = components_table_with (order_rows P') table"
    using Inr assms(3,5) by (simp add: fetch_components_with_def)
  have s: "index_name df = Some ''Symbol'' \<and> sorted (index_labels df)"
    if "components_table_with (order_rows P) table = Inr df" for df
    using assms(1) that by (rule components_table_with_sorted)
  have t: "same_up_to_ties (components_table_with (order_rows P) table)
                           (components_table_with (order_rows P') table)"
    using assms(1,2) by (rule components_table_with_ties)
  from s t show ?thesis
    unfolding a b c by blast
qed

lemma reversed_sorts_by_label: "sorts_by_label (\<lambda>xs. sort_key fst (rev xs))"
  by (simp add: sorts_by_label_def)

theorem extraction_determined_by_content_witness:
  "fst (fetch_components_with example_pandas (example_download 102) example_page
          \<lparr>revid = 102, timestamp = 20, user = ''bob'', comment = ''add legend''\<rparr> [])
     = fst (fetch_components_with example_pandas (example_download 103) example_page
          \<lparr>revid = 103, timestamp = 30, user = ''cho'', comment = ''fix typo''\<rparr>
          [PageGet (PageUrl example_page 101)])
   \<and> fst (fetch_components_with example_pandas (example_download 102) example_page
          \<lparr>revid = 102, timestamp = 20, user = ''bob'', comment = ''add legend''\<rparr> [])
     = Inr example_sorted
   \<and> same_up_to_ties
        (fst (fetch_components_with example_pandas (example_download 102) example_page
          \<lparr>revid = 102, timestamp = 20, user = ''bob'', comment = ''add legend''\<rparr> []))
        (fst (fetch_components_with example_pandas_reversed (example_download 103) example_page
          \<lparr>revid = 103, timestamp = 30, user = ''cho'', comment = ''fix typo''\<rparr>
          [PageGet (PageUrl example_page 101)]))"
proof -
  let ?r1 = "\<lparr>revid = 102, timestamp = 20, user = ''bob'', comment = ''add legend''\<rparr>"
  let ?r2 = "\<lparr>revid = 103, timestamp = 30, user = ''cho'', comment = ''fix typo''\<rparr>"
  have h1: "sorts_by_label (order_rows example_pandas)"
    by (simp add: example_pandas_def stable_sorts_by_label)
  have h2: "sorts_by_label (order_rows example_pandas_reversed)"
    by (simp add: example_pandas_reversed_def reversed_sorts_by_label)
  have h3: "parse_html example_pandas_reversed = parse_html example_pandas"
    by (simp add: example_pandas_reversed_def)
  have h4: "example_download 102 (PageUrl example_page (revid ?r1)) = Inr example_html"
    by (simp add: example_download_def)
  have h5: "example_download 103 (PageUrl example_page (revid ?r2)) = Inr example_html"
    by (simp add: example_download_def)
  have e: "fst (fetch_components_with example_pandas (example_download 102) example_page ?r1 [])
             = Inr example_sorted"
    by (simp add: fetch_components_with_def example_download_def example_pandas_def
        components_table_stable example_tables)
  from extraction_determined_by_content
         [where P = example_pandas and P' = example_pandas_reversed
            and download_a = "example_download 102" and download_b = "example_download 103"
            and page_a = example_page and page_b = example_page and rev_a = ?r1 and rev_b = ?r2
            and html = example_html and log_a = "[]" and log_b = "[PageGet (PageUrl example_page 101)]",
          OF h1 h2 h3 h4 h5]
  have t: "fst (fetch_components_with example_pandas (example_download 102) example_page ?r1 [])
             = fst (fetch_components_with example_pandas (example_download 103) example_page ?r2
                 [PageGet (PageUrl example_page 101)])"
    and u: "same_up_to_ties
        (fst (fetch_components_with example_pandas (example_download 102) example_page ?r1 []))
        (fst (fetch_components_with example_pandas_reversed (example_download 103) example_page ?r2
          [PageGet (PageUrl example_page 101)]))"
    by blast+
  from t e u show ?thesis
    by (intro conjI)
qed

section \<open>Properties of the snapshot writer\<close>

lemma write_components_strings:
  assumes "all_str item" "writable index (dirs st) item"
  shows "write_components index item st =
           Inr (st\<lparr>files := (files st)(item_path index item \<mapsto> item_text item)\<rparr>)"
  using assms
  by (cases "py_split (fst item)")
     (simp_all add: write_components_def all_str_def writable_def item_path_def item_text_def
        open_w_def file_write_def Let_def)

lemma write_components_skip:
  assumes "\<not> all_str item"
  shows "write_components index item st = Inr (st\<lparr>stdout := stdout st @ [skip_message (fst item)]\<rparr>)"
  using assms by (simp add: write_components_def all_str_def Let_def)

lemma run_closed_form:
  assumes "\<forall>item\<in>set components. all_str item \<longrightarrow> writable index (dirs st) item"
  shows "components_to_separate_csv components index st =
           Inr (st\<lparr>files := written index components (files st),
                   stdout := stdout st @ map (\<lambda>item. skip_message (fst item))
                                             (filter (\<lambda>item. \<not> all_str item) components)\<rparr>)"
  using assms
proof (induction components arbitrary: st)
  case Nil
  then show ?case by simp
next
  case (Cons item items)
  show ?case
  proof (cases "all_str item")
    case True
    let ?st = "st\<lparr>files := (files st)(item_path index item \<mapsto> item_text item)\<rparr>"
    from True Cons.prems have w: "write_components index item st = Inr ?st"
      by (intro write_components_strings) simp_all
    from Cons.prems have "\<forall>i\<in>set items. all_str i \<longrightarrow> writable index (dirs ?st) i"
      by simp
    from Cons.IH [OF this] w True show ?thesis
      by (simp add: fun_upd_def)
  next
    case False
    let ?st = "st\<lparr>stdout := stdout st @ [skip_message (fst item)]\<rparr>"
    from False have w: "write_components index item st = Inr ?st"
      by (rule write_components_skip)
    from Cons.prems have "\<forall>i\<in>set items. all_str i \<longrightarrow> writable index (dirs ?st) i"
      by simp
    from Cons.IH [OF this] w False show ?thesis
      by simp
  qed
qed

lemma written_other:
  "p \<notin> item_path index ` {item \<in> set items. all_str item} \<Longrightarrow> written index items fs p = fs p"
proof (induction items arbitrary: fs)
  case Nil
  then show ?case by simp
next
  case (Cons x xs)
  from Cons.prems have xs: "p \<notin> item_path index ` {item \<in> set xs. all_str item}"
    by auto
  show ?case
  proof (cases "all_str x")
    case True
    with Cons.prems have "p \<noteq> item_path index x"
      by auto
    moreover have "written index xs (fs(item_path index x \<mapsto> item_text x)) p
        = (fs(item_path index x \<mapsto> item_text x)) p"
      using xs by (rule Cons.IH)
    ultimately show ?thesis
      using True by simp
  next
    case False
    with Cons.IH [OF xs] show ?thesis by simp
  qed
qed

lemma written_some:
  "p \<in> item_path index ` {item \<in> set items. all_str item} \<or> fs p \<noteq> None \<Longrightarrow>
     written index items fs p \<noteq> None"
proof (induction items arbitrary: fs)
  case Nil
  then show ?case by simp
next
  case (Cons x xs)
  show ?case
  proof (cases "all_str x")
    case True
    from Cons.prems True
    have "p \<in> item_path index ` {item \<in> set xs. all_str item}
            \<or> (fs(item_path index x \<mapsto> item_text x)) p \<noteq> None"
      by auto
    then have "written index xs (fs(item_path index x \<mapsto> item_text x)) p \<noteq> None"
      by (rule Cons.IH)
    with True show ?thesis by simp
  next
    case False
    from Cons.prems False have "p \<in> item_path index ` {item \<in> set xs. all_str item} \<or> fs p \<noteq> None"
      by auto
    then have "written index xs fs p \<noteq> None"
      by (rule Cons.IH)
    with False show ?thesis by simp
  qed
qed

lemma written_touched:
  "item \<in> set items \<Longrightarrow> all_str item \<Longrightarrow> written index items fs (item_path index item) \<noteq> None"
  by (rule written_some) auto

lemma written_distinct:
  "distinct (map (item_path index) (filter all_str items)) \<Longrightarrow> item \<in> set items \<Longrightarrow> all_str item \<Longrightarrow>
     written index items fs (item_path index item) = Some (item_text item)"
proof (induction items arbitrary: fs)
  case Nil
  then show ?case by simp
next
  case (Cons x xs)
  show ?case
  proof (cases "item = x")
    case True
    with Cons.prems have "item_path index item \<notin> item_path index ` {i \<in> set xs. all_str i}"
      by auto
    then have "written index xs fs' (item_path index item) = fs' (item_path index item)" for fs'
      by (rule written_other)
    with True Cons.prems show ?thesis by simp
  next
    case False
    with Cons show ?thesis by (simp split: if_splits)
  qed
qed

text \<open>
  Claim C8. Let every item of the dict whose components are all strings have a date with
  a first word and a file that can be opened. Then components\_to\_separate\_csv does not
  raise, creates no directory, and
  \<^item> prints one line "Skipping date ..." for each item with a component that is not a
    string, in the order of the items, and nothing else;
  \<^item> leaves the files as \<open>written\<close> says: each item of strings stores its components,
    joined by commas, under \<open>index/index_date.csv\<close> with the first word of its date,
    replacing what was there;
  \<^item> so each item of strings has its file afterwards, with exactly its joined components
    when no two such items share a path; and every other path is as it was, so an item
    that is skipped writes nothing.
\<close>

theorem snapshots_written_or_skipped:
  assumes "\<forall>item\<in>set components. all_str item \<longrightarrow> writable index (dirs st) item"
  shows "\<exists>st'. components_to_separate_csv components index st = Inr st'
           \<and> dirs st' = dirs st
           \<and> stdout st' = stdout st @ map (\<lambda>item. skip_message (fst item))
                                           (filter (\<lambda>item. \<not> all_str item) components)
           \<and> files st' = written index components (files st)
           \<and> (\<forall>item\<in>set components. all_str item \<longrightarrow> files st' (item_path index item) \<noteq> None)
           \<and> (distinct (map (item_path index) (filter all_str components)) \<longrightarrow>
                (\<forall>item\<in>set components. all_str item \<longrightarrow>
                   files st' (item_path index item) = Some (item_text item)))
           \<and> (\<forall>p. p \<notin> item_path index ` {item \<in> set components. all_str item}
                  \<longrightarrow> files st' p = files st p)"
proof -
  let ?st = "st\<lparr>files := written index components (files st),
                 stdout := stdout st @ map (\<lambda>item. skip_message (fst item))
                                           (filter (\<lambda>item. \<not> all_str item) components)\<rparr>"
  have r: "components_to_separate_csv components index st = Inr ?st"
    using assms by (rule run_closed_form)
  have a: "files ?st (item_path index item) \<noteq> None" if "item \<in> set components" "all_str item" for item
    using that by (simp add: written_touched)
  have b: "files ?st (item_path index item) = Some (item_text item)"
    if "distinct (map (item_path index) (filter all_str components))" "item \<in> set components" "all_str item"
    for item
    using that by (simp add: written_distinct)
  have c: "files ?st p = files st p" if "p \<notin> item_path index ` {item \<in> set components. all_str item}" for p
    using that by (simp add: written_other)
  from r a b c show ?thesis by simp
qed

lemma example_paths:
  "item_path ''SPX'' (''2015-01-01 00:00:00'', l1) = ''SPX/SPX_2015-01-01.csv''"
  "item_path ''SPX'' (''2015-04-01 00:00:00'', l2) = ''SPX/SPX_2015-04-01.csv''"
  "item_path ''SPX'' (''2015-07-01 00:00:00'', l3) = ''SPX/SPX_2015-07-01.csv''"
  "py_split ''2015-01-01 00:00:00'' \<noteq> []"
  "py_split ''2015-07-01 00:00:00'' \<noteq> []"
  by (simp_all add: item_path_def snapshot_path_def py_split_def is_space_def wide_spaces_def)

lemma example_writable:
  "\<forall>item\<in>set example_snapshots. all_str item \<longrightarrow> writable ''SPX'' (dirs example_state) item"
  by (simp add: example_snapshots_def example_state_def all_str_def writable_def example_paths dirname_def)

theorem snapshots_written_or_skipped_witness:
  "\<exists>st'. components_to_separate_csv example_snapshots ''SPX'' example_state = Inr st'
     \<and> files st' ''SPX/SPX_2015-01-01.csv'' = Some ''AAPL,MSFT''
     \<and> files st' ''SPX/SPX_2015-04-01.csv'' = None
     \<and> files st' ''SPX/SPX_2015-07-01.csv'' = Some []
     \<and> stdout st' = [''Skipping date 2015-04-01 00:00:00 due to non-string components'']"
proof -
  from snapshots_written_or_skipped [OF example_writable]
  obtain st' where r: "components_to_separate_csv example_snapshots ''SPX'' example_state = Inr st'"
    and o: "stdout st' = stdout example_state @ map (\<lambda>item. skip_message (fst item))
                                           (filter (\<lambda>item. \<not> all_str item) example_snapshots)"
    and f: "files st' = written ''SPX'' example_snapshots (files example_state)"
    by blast
  have "files st' ''SPX/SPX_2015-01-01.csv'' = Some ''AAPL,MSFT''"
    "files st' ''SPX/SPX_2015-04-01.csv'' = None"
    "files st' ''SPX/SPX_2015-07-01.csv'' = Some []"
    unfolding f
    by (simp_all add: example_snapshots_def example_state_def all_str_def example_paths item_text_def)
  moreover have "stdout st' = [''Skipping date 2015-04-01 00:00:00 due to non-string components'']"
    unfolding o
    by (simp add: example_snapshots_def example_state_def all_str_def skip_message_def)
  ultimately show ?thesis
    using r by simp
qed

text \<open>
  Claim C10. Under the hypothesis of C8, an item with an empty list of components passes
  the test of line 134: the body of the loop opens its file and writes the empty text,
  without raising and without printing. After the whole run the file exists and is empty,
  when no other item of strings shares its path.
\<close>

theorem empty_list_writes_empty_file:
  assumes "\<forall>item\<in>set components. all_str item \<longrightarrow> writable index (dirs st) item"
    and "(date, []) \<in> set components"
    and "distinct (map (item_path index) (filter all_str components))"
  shows "write_components index (date, []) st =
           Inr (st\<lparr>files := (files st)(item_path index (date, []) \<mapsto> [])\<rparr>)
       \<and> (\<exists>st'. components_to_separate_csv components index st = Inr st'
              \<and> files st' (item_path index (date, [])) = Some [])"
proof
  have e: "all_str (date, [])"
    by (simp add: all_str_def)
  with assms(1,2) have "writable index (dirs st) (date, [])"
    by blast
  with e have "write_components index (date, []) st =
      Inr (st\<lparr>files := (files st)(item_path index (date, []) \<mapsto> item_text (date, []))\<rparr>)"
    by (rule write_components_strings)
  then show "write_components index (date, []) st =
           Inr (st\<lparr>files := (files st)(item_path index (date, []) \<mapsto> [])\<rparr>)"
    by (simp add: item_text_def)
  let ?st = "st\<lparr>files := written index components (files st),
                 stdout := stdout st @ map (\<lambda>item. skip_message (fst item))
                                           (filter (\<lambda>item. \<not> all_str item) components)\<rparr>"
  have r: "components_to_separate_csv components index st = Inr ?st"
    using assms(1) by (rule run_closed_form)
  have "written index components (files st) (item_path index (date, [])) = Some (item_text (date, []))"
    using assms(3,2) e by (rule written_distinct)
  then have "files ?st (item_path index (date, [])) = Some []"
    by (simp add: item_text_def)
  with r show "\<exists>st'. components_to_separate_csv components index st = Inr st'
              \<and> files st' (item_path index (date, [])) = Some []"
    by blast
qed

theorem empty_list_writes_empty_file_witness:
  "write_components ''SPX'' (''2015-07-01 00:00:00'', []) example_state =
     Inr (example_state\<lparr>files := (files example_state)(''SPX/SPX_2015-07-01.csv'' \<mapsto> [])\<rparr>)
   \<and> (\<exists>st'. components_to_separate_csv example_snapshots ''SPX'' example_state = Inr st'
          \<and> files st' ''SPX/SPX_2015-07-01.csv'' = Some [])"
proof -
  have h2: "(''2015-07-01 00:00:00'', []) \<in> set example_snapshots"
    by (simp add: example_snapshots_def)
  have h3: "distinct (map (item_path ''SPX'') (filter all_str example_snapshots))"
    by (simp add: example_snapshots_def all_str_def example_paths)
  from empty_list_writes_empty_file [OF example_writable h2 h3] show ?thesis
    by (simp add: example_paths)
qed

end
